theory Spec2Isabelle
  imports Main "HOL-Library.Sublist"
begin

section \<open>The ephemeral cache (class DataCache of lib/cache)\<close>

text \<open>
  A cache entry is the stored value, the clock reading at its creation and its
  time-to-live, both in milliseconds. The clock (\<^verbatim>\<open>Date.now()\<close>) yields whole
  milliseconds, so times are integers; every method that reads the clock takes
  the reading as an argument.
\<close>

record 'v CacheEntry =
  data :: 'v
  timestamp :: int
  ttl :: int

text \<open>The private \<^verbatim>\<open>Map<string, CacheEntry>\<close>: a partial map from keys to entries.\<close>

type_synonym 'v DataCache = "string \<rightharpoonup> 'v CacheEntry"

text \<open>
  \<^verbatim>\<open>set(key, data, ttlMinutes)\<close> overwrites the entry of the key; \<open>now\<close> is the value of
  \<^verbatim>\<open>Date.now()\<close> read inside the method.
\<close>

definition DataCache_set :: "string \<Rightarrow> 'v \<Rightarrow> int \<Rightarrow> int \<Rightarrow> 'v DataCache \<Rightarrow> 'v DataCache" where
  "DataCache_set key dat ttlMinutes now cache =
     cache(key \<mapsto> \<lparr>data = dat, timestamp = now, ttl = ttlMinutes * 60 * 1000\<rparr>)"

text \<open>
  \<^verbatim>\<open>get(key)\<close> returns the value (\<open>None\<close> stands for \<^verbatim>\<open>null\<close>) and the cache it
  leaves behind. The entry is deleted when \<^verbatim>\<open>now - entry.timestamp > entry.ttl\<close>.
\<close>

definition DataCache_get :: "string \<Rightarrow> int \<Rightarrow> 'v DataCache \<Rightarrow> 'v option \<times> 'v DataCache" where
  "DataCache_get key now cache =
     (case cache key of
        None \<Rightarrow> (None, cache)
      | Some entry \<Rightarrow>
          if now - timestamp entry > ttl entry then (None, cache(key := None))
          else (Some (data entry), cache))"

definition DataCache_has :: "string \<Rightarrow> int \<Rightarrow> 'v DataCache \<Rightarrow> bool \<times> 'v DataCache" where
  "DataCache_has key now cache =
     (case cache key of
        None \<Rightarrow> (False, cache)
      | Some entry \<Rightarrow>
          if now - timestamp entry > ttl entry then (False, cache(key := None))
          else (True, cache))"

definition DataCache_clear :: "'v DataCache \<Rightarrow> 'v DataCache" where
  "DataCache_clear cache = Map.empty"

text \<open>The module's global instance starts as an empty map.\<close>

definition dataCache :: "'v DataCache" where
  "dataCache = Map.empty"


section \<open>The count-based reducer (optimizeDataForTimeWindow of lib/cache)\<close>

text \<open>
  \<^verbatim>\<open>Array.prototype.slice(start)\<close> with one argument: a negative start counts from
  the end and is clamped at 0, a positive one is clamped at the length.
\<close>

definition slice :: "int \<Rightarrow> 'a list \<Rightarrow> 'a list" where
  "slice start xs =
     (let len = int (length xs);
          k = (if start < 0 then max (len + start) 0 else min start len)
      in drop (nat k) xs)"

text \<open>
  \<^verbatim>\<open>Array.prototype.filter\<close> with a callback that also receives the index:
  \<open>filterFrom p i xs\<close> visits \<open>xs\<close> whose first element has index \<open>i\<close>.
\<close>

fun filterFrom :: "('a \<Rightarrow> nat \<Rightarrow> bool) \<Rightarrow> nat \<Rightarrow> 'a list \<Rightarrow> 'a list" where
  "filterFrom p i [] = []"
| "filterFrom p i (x # xs) =
     (if p x i then x # filterFrom p (Suc i) xs else filterFrom p (Suc i) xs)"

definition Array_filter :: "('a \<Rightarrow> nat \<Rightarrow> bool) \<Rightarrow> 'a list \<Rightarrow> 'a list" where
  "Array_filter p xs = filterFrom p 0 xs"

text \<open>
  The decimal rendering of a length inside the template literal
  \<^verbatim>\<open>`optimized_${timeWindow}_${data.length}`\<close>.
\<close>

definition digit :: "nat \<Rightarrow> char" where
  "digit d = char_of (48 + d)"

fun decimal :: "nat \<Rightarrow> string" where
  "decimal n = (if n < 10 then [digit n] else decimal (n div 10) @ [digit (n mod 10)])"

declare decimal.simps [simp del]

definition cacheKey :: "string \<Rightarrow> nat \<Rightarrow> string" where
  "cacheKey timeWindow len = ''optimized_'' @ timeWindow @ ''_'' @ decimal len"

text \<open>
  Lines 96 to 110: the branch taken when nothing is cached. The window is an
  arbitrary string here (the parameter is typed \<^verbatim>\<open>string\<close>); a label with no branch
  leaves the data as it is. The subtractions \<^verbatim>\<open>data.length - 90\<close> and
  \<^verbatim>\<open>data.length - 365\<close> are taken over the integers.
\<close>

definition optimizedData :: "string \<Rightarrow> 'a list \<Rightarrow> 'a list" where
  "optimizedData timeWindow dat =
     (if timeWindow = ''1W'' \<and> length dat > 7 then slice (- 7) dat
      else if timeWindow = ''1M'' \<and> length dat > 60 then slice (- 30) dat
      else if timeWindow = ''3M'' \<and> length dat > 180 then
        Array_filter (\<lambda>_ index. index mod 2 = 0 \<or> int index \<ge> int (length dat) - 90) dat
      else if timeWindow = ''1Y'' \<and> length dat > 365 then
        Array_filter (\<lambda>_ index. index mod 7 = 0 \<or> int index \<ge> int (length dat) - 365) dat
      else dat)"

text \<open>
  The whole function, with the global cache threaded through: it returns the
  array and the cache it leaves. \<open>t_get\<close> is the clock reading inside
  \<^verbatim>\<open>dataCache.get\<close>, \<open>t_set\<close> the later one inside \<^verbatim>\<open>dataCache.set\<close>. The argument
  is an array (the \<^verbatim>\<open>!data\<close> test of a missing argument is outside the model), and
  the cache holds arrays only, since this function is its only writer: the test
  \<^verbatim>\<open>cached && Array.isArray(cached)\<close> succeeds exactly when \<^verbatim>\<open>get\<close> returns a value.
\<close>

definition optimizeDataForTimeWindow ::
  "'a list \<Rightarrow> string \<Rightarrow> int \<Rightarrow> int \<Rightarrow> 'a list DataCache \<Rightarrow> 'a list \<times> 'a list DataCache" where
  "optimizeDataForTimeWindow dat timeWindow t_get t_set cache =
     (if timeWindow = ''ALL'' \<or> dat = [] then (dat, cache)
      else
        (case DataCache_get (cacheKey timeWindow (length dat)) t_get cache of
           (Some cached, cache') \<Rightarrow> (cached, cache')
         | (None, cache') \<Rightarrow>
             (optimizedData timeWindow dat,
              DataCache_set (cacheKey timeWindow (length dat))
                (optimizedData timeWindow dat) 30 t_set cache')))"


section \<open>The JavaScript Date operations used by the date-cutoff reducer\<close>

text \<open>
  Time values are whole milliseconds since the epoch; \<open>None\<close> stands for the
  time value \<^verbatim>\<open>NaN\<close> of an invalid date. The definitions below are those of the
  ECMAScript specification (Day, TimeWithinDay, DaysInYear, DayFromYear,
  YearFromTime, MonthFromTime, DateFromTime, MakeDay, MakeDate, TimeClip,
  LocalTime, UTC); integer \<open>div\<close> and \<open>mod\<close> round towards minus infinity, as
  the specification's floor and modulo do.
\<close>

definition msPerDay :: int where
  "msPerDay = 86400000"

definition Day :: "int \<Rightarrow> int" where
  "Day t = t div msPerDay"

definition TimeWithinDay :: "int \<Rightarrow> int" where
  "TimeWithinDay t = t mod msPerDay"

definition DaysInYear :: "int \<Rightarrow> int" where
  "DaysInYear y =
     (if y mod 4 \<noteq> 0 then 365 else if y mod 100 \<noteq> 0 then 366
      else if y mod 400 \<noteq> 0 then 365 else 366)"

definition DayFromYear :: "int \<Rightarrow> int" where
  "DayFromYear y =
     365 * (y - 1970) + (y - 1969) div 4 - (y - 1901) div 100 + (y - 1601) div 400"

text \<open>
  The year of a day number: the largest \<open>y\<close> with \<open>DayFromYear y \<le> d\<close>. It is
  computed from an estimate that is off by at most one year (lemmas
  \<open>YearFromDay_bounds\<close> and \<open>YearFromDay_unique\<close> show that the result is that
  largest year).
\<close>

definition YearFromDay :: "int \<Rightarrow> int" where
  "YearFromDay d =
     (let y = 1970 + (d * 400) div 146097
      in if d < DayFromYear y then y - 1
         else if DayFromYear (y + 1) \<le> d then y + 1
         else y)"

definition YearFromTime :: "int \<Rightarrow> int" where
  "YearFromTime t = YearFromDay (Day t)"

definition InLeapYear :: "int \<Rightarrow> int" where
  "InLeapYear t = (if DaysInYear (YearFromTime t) = 366 then 1 else 0)"

definition DayWithinYear :: "int \<Rightarrow> int" where
  "DayWithinYear t = Day t - DayFromYear (YearFromTime t)"

definition MonthFromTime :: "int \<Rightarrow> int" where
  "MonthFromTime t =
     (let d = DayWithinYear t; l = InLeapYear t
      in if d < 31 then 0
         else if d < 59 + l then 1
         else if d < 90 + l then 2
         else if d < 120 + l then 3
         else if d < 151 + l then 4
         else if d < 181 + l then 5
         else if d < 212 + l then 6
         else if d < 243 + l then 7
         else if d < 273 + l then 8
         else if d < 304 + l then 9
         else if d < 334 + l then 10
         else 11)"

text \<open>The day within the year on which a month (0 to 11) starts.\<close>

definition DayFromMonth :: "int \<Rightarrow> int \<Rightarrow> int" where
  "DayFromMonth m l =
     (if m = 0 then 0
      else if m = 1 then 31
      else if m = 2 then 59 + l
      else if m = 3 then 90 + l
      else if m = 4 then 120 + l
      else if m = 5 then 151 + l
      else if m = 6 then 181 + l
      else if m = 7 then 212 + l
      else if m = 8 then 243 + l
      else if m = 9 then 273 + l
      else if m = 10 then 304 + l
      else 334 + l)"

text \<open>The number of days of a month (0 to 11) of a year.\<close>

definition DaysInMonth :: "int \<Rightarrow> int \<Rightarrow> int" where
  "DaysInMonth y m =
     (if m = 1 then (if DaysInYear y = 366 then 29 else 28)
      else if m = 3 \<or> m = 5 \<or> m = 8 \<or> m = 10 then 30
      else 31)"

definition DateFromTime :: "int \<Rightarrow> int" where
  "DateFromTime t = DayWithinYear t - DayFromMonth (MonthFromTime t) (InLeapYear t) + 1"

text \<open>
  MakeDay: the month may lie outside 0 to 11 and the date outside the month;
  both carry over into the neighbouring months and years.
\<close>

definition MakeDay :: "int \<Rightarrow> int \<Rightarrow> int \<Rightarrow> int" where
  "MakeDay year month dt =
     (let ym = year + month div 12;
          mn = month mod 12
      in DayFromYear ym + DayFromMonth mn (if DaysInYear ym = 366 then 1 else 0) + dt - 1)"

definition MakeDate :: "int \<Rightarrow> int \<Rightarrow> int" where
  "MakeDate day time = day * msPerDay + time"

definition TimeClip :: "int \<Rightarrow> int option" where
  "TimeClip time = (if \<bar>time\<bar> > 8640000000000000 then None else Some time)"

text \<open>
  What the host supplies: the parser behind \<^verbatim>\<open>new Date(string)\<close>, whose result for
  strings outside the ISO format is implementation-defined, and the local time
  zone adjustment \<open>LocalTZA t isUTC\<close> in milliseconds.
\<close>

record JSRuntime =
  Date_parse :: "string \<Rightarrow> int option"
  LocalTZA :: "int \<Rightarrow> bool \<Rightarrow> int"

definition LocalTime :: "JSRuntime \<Rightarrow> int \<Rightarrow> int" where
  "LocalTime rt t = t + LocalTZA rt t True"

definition UTC :: "JSRuntime \<Rightarrow> int \<Rightarrow> int" where
  "UTC rt t = t - LocalTZA rt t False"

text \<open>The methods of a Date object whose time value \<open>t\<close> is valid.\<close>

definition getFullYear :: "JSRuntime \<Rightarrow> int \<Rightarrow> int" where
  "getFullYear rt t = YearFromTime (LocalTime rt t)"

definition getMonth :: "JSRuntime \<Rightarrow> int \<Rightarrow> int" where
  "getMonth rt t = MonthFromTime (LocalTime rt t)"

definition getDate :: "JSRuntime \<Rightarrow> int \<Rightarrow> int" where
  "getDate rt t = DateFromTime (LocalTime rt t)"

definition setFullYear :: "JSRuntime \<Rightarrow> int \<Rightarrow> int \<Rightarrow> int option" where
  "setFullYear rt t year =
     (let lt = LocalTime rt t;
          newDate = MakeDate (MakeDay year (MonthFromTime lt) (DateFromTime lt)) (TimeWithinDay lt)
      in TimeClip (UTC rt newDate))"

definition setMonth :: "JSRuntime \<Rightarrow> int \<Rightarrow> int \<Rightarrow> int option" where
  "setMonth rt t month =
     (let lt = LocalTime rt t;
          newDate = MakeDate (MakeDay (YearFromTime lt) month (DateFromTime lt)) (TimeWithinDay lt)
      in TimeClip (UTC rt newDate))"

definition setDate :: "JSRuntime \<Rightarrow> int \<Rightarrow> int \<Rightarrow> int option" where
  "setDate rt t dt =
     (let lt = LocalTime rt t;
          newDate = MakeDate (MakeDay (YearFromTime lt) (MonthFromTime lt) dt) (TimeWithinDay lt)
      in TimeClip (UTC rt newDate))"

text \<open>
  \<^verbatim>\<open>a >= b\<close> on two Date objects compares their time values; a comparison with
  \<^verbatim>\<open>NaN\<close> is false.
\<close>

fun dateGe :: "int option \<Rightarrow> int option \<Rightarrow> bool" where
  "dateGe (Some a) (Some b) = (a \<ge> b)"
| "dateGe _ _ = False"


section \<open>The date-cutoff reducer (filterDataByTimeWindow of TimeWindowFilter.tsx)\<close>

text \<open>The labels of the union type \<^verbatim>\<open>TimeWindow\<close>: ALL, 3Y, 1Y, 6M, 3M, 1M and 1W.\<close>

datatype TimeWindow = W_ALL | W_3Y | W_1Y | W_6M | W_3M | W_1M | W_1W

text \<open>
  A point of a series: the reducer reads nothing but its \<^verbatim>\<open>date\<close> string; the
  metrics live in the record's extension.
\<close>

record TimeSeriesPoint =
  date :: string

text \<open>
  The \<^verbatim>\<open>switch\<close>: \<open>now\<close> is the time value of \<^verbatim>\<open>const now = new Date()\<close> and \<open>cutoff0\<close>
  that of \<^verbatim>\<open>let cutoffDate = new Date()\<close>, read right after it. No case matches
  \<open>W_ALL\<close>, which leaves the cutoff as it was created.
\<close>

definition cutoffDate :: "JSRuntime \<Rightarrow> int \<Rightarrow> int \<Rightarrow> TimeWindow \<Rightarrow> int option" where
  "cutoffDate rt now cutoff0 timeWindow =
     (case timeWindow of
        W_3Y \<Rightarrow> setFullYear rt cutoff0 (getFullYear rt now - 3)
      | W_1Y \<Rightarrow> setFullYear rt cutoff0 (getFullYear rt now - 1)
      | W_6M \<Rightarrow> setMonth rt cutoff0 (getMonth rt now - 6)
      | W_3M \<Rightarrow> setMonth rt cutoff0 (getMonth rt now - 3)
      | W_1M \<Rightarrow> setMonth rt cutoff0 (getMonth rt now - 1)
      | W_1W \<Rightarrow> setDate rt cutoff0 (getDate rt now - 7)
      | W_ALL \<Rightarrow> Some cutoff0)"

definition filterDataByTimeWindow ::
  "JSRuntime \<Rightarrow> int \<Rightarrow> int \<Rightarrow> 'a TimeSeriesPoint_scheme list \<Rightarrow> TimeWindow
     \<Rightarrow> 'a TimeSeriesPoint_scheme list" where
  "filterDataByTimeWindow rt now cutoff0 dat timeWindow =
     (if timeWindow = W_ALL \<or> dat = [] then dat
      else filter (\<lambda>item. dateGe (Date_parse rt (date item)) (cutoffDate rt now cutoff0 timeWindow)) dat)"

text \<open>The valid time values among the dates of a series, and the latest of them.\<close>

definition validDates :: "JSRuntime \<Rightarrow> 'a TimeSeriesPoint_scheme list \<Rightarrow> int list" where
  "validDates rt dat = List.map_filter (\<lambda>item. Date_parse rt (date item)) dat"

definition latestDate :: "JSRuntime \<Rightarrow> 'a TimeSeriesPoint_scheme list \<Rightarrow> int" where
  "latestDate rt dat = Max (set (validDates rt dat))"


section \<open>Reducing twice\<close>

text \<open>
  Applying the count-based reducer to its own output: the second call sees the
  cache the first one left.
\<close>

definition optimizeTwice ::
  "'a list \<Rightarrow> string \<Rightarrow> int \<Rightarrow> int \<Rightarrow> int \<Rightarrow> int \<Rightarrow> 'a list DataCache \<Rightarrow> 'a list" where
  "optimizeTwice dat timeWindow t_get t_set t_get' t_set' cache =
     (case optimizeDataForTimeWindow dat timeWindow t_get t_set cache of
        (once, cache') \<Rightarrow> fst (optimizeDataForTimeWindow once timeWindow t_get' t_set' cache'))"


section \<open>The offsets of the specification\<close>

text \<open>
  This table follows the words of the specification, not the code: the offset
  it gives each window (3 years, 1 year, 6, 3 or 1 month, 7 days), as years,
  months and days. Claim C1 compares the cutoff the code computes with it.
\<close>

fun windowOffset :: "TimeWindow \<Rightarrow> int \<times> int \<times> int" where
  "windowOffset W_ALL = (0, 0, 0)"
| "windowOffset W_3Y = (3, 0, 0)"
| "windowOffset W_1Y = (1, 0, 0)"
| "windowOffset W_6M = (0, 6, 0)"
| "windowOffset W_3M = (0, 3, 0)"
| "windowOffset W_1M = (0, 1, 0)"
| "windowOffset W_1W = (0, 0, 7)"


section \<open>A host and a series for the worked example\<close>

text \<open>
  The example of the specification needs a concrete host and a concrete series;
  neither is part of the repository's code.
\<close>

text \<open>
  The parser of this host reads the date-only form \<^verbatim>\<open>YYYY-MM-DD\<close> of the
  ECMAScript date-time string format, as midnight UTC. A real host reads more
  forms (date-times, and forms of its own); this one takes every other string as
  invalid, and the statements about it use date-only strings and one word that
  no host reads as a date.
\<close>

definition digitValue :: "char \<Rightarrow> int option" where
  "digitValue c =
     (let n = (of_char c :: nat) in if 48 \<le> n \<and> n \<le> 57 then Some (int n - 48) else None)"

fun digitsValue :: "int \<Rightarrow> string \<Rightarrow> int option" where
  "digitsValue acc [] = Some acc"
| "digitsValue acc (c # cs) =
     (case digitValue c of None \<Rightarrow> None | Some v \<Rightarrow> digitsValue (10 * acc + v) cs)"

definition parseIsoDate :: "string \<Rightarrow> int option" where
  "parseIsoDate s =
     (case s of
        [y1, y2, y3, y4, h1, m1, m2, h2, d1, d2] \<Rightarrow>
          (case (digitsValue 0 [y1, y2, y3, y4], digitsValue 0 [m1, m2], digitsValue 0 [d1, d2]) of
             (Some y, Some m, Some d) \<Rightarrow>
               if h1 = CHR ''-'' \<and> h2 = CHR ''-'' \<and> 1 \<le> m \<and> m \<le> 12 \<and> 1 \<le> d \<and> d \<le> 31
               then TimeClip (MakeDate (MakeDay y (m - 1) d) 0)
               else None
           | _ \<Rightarrow> None)
      | _ \<Rightarrow> None)"

text \<open>A host in the UTC time zone.\<close>

definition utcRuntime :: JSRuntime where
  "utcRuntime = \<lparr>Date_parse = parseIsoDate, LocalTZA = (\<lambda>_ _. 0)\<rparr>"

text \<open>
  The date string of a day number (days since the epoch), for years 0 to 9999,
  and a series of \<open>n\<close> consecutive daily points whose last day is \<open>lastDay\<close>.
\<close>

definition pad2 :: "int \<Rightarrow> string" where
  "pad2 v = [digit (nat (v div 10 mod 10)), digit (nat (v mod 10))]"

definition pad4 :: "int \<Rightarrow> string" where
  "pad4 v = [digit (nat (v div 1000 mod 10)), digit (nat (v div 100 mod 10)),
             digit (nat (v div 10 mod 10)), digit (nat (v mod 10))]"

definition isoDate :: "int \<Rightarrow> string" where
  "isoDate d =
     (let t = d * msPerDay
      in pad4 (YearFromTime t) @ ''-'' @ pad2 (MonthFromTime t + 1) @ ''-'' @ pad2 (DateFromTime t))"

definition dailySeries :: "int \<Rightarrow> nat \<Rightarrow> TimeSeriesPoint list" where
  "dailySeries lastDay n = map (\<lambda>i. \<lparr>date = isoDate (lastDay - int n + 1 + int i)\<rparr>) [0..<n]"

section \<open>Lemmas on arrays, the branches and the cache\<close>

subsection \<open>Arrays\<close>

lemma slice_neg: "0 < n \<Longrightarrow> slice (- int n) xs = drop (length xs - n) xs"
  by (auto simp: slice_def Let_def max_def intro: arg_cong2[where f=drop])

lemma subseq_slice: "subseq (slice k xs) xs"
  by (simp add: slice_def Let_def suffix_imp_subseq suffix_drop)

lemma subseq_filterFrom: "subseq (filterFrom p i xs) xs"
  by (induction xs arbitrary: i) auto

lemma subseq_optimizedData: "subseq (optimizedData timeWindow dat) dat"
  by (simp add: optimizedData_def Array_filter_def subseq_slice subseq_filterFrom)

lemma filterFrom_append:
  "filterFrom p i (xs @ ys) = filterFrom p i xs @ filterFrom p (i + length xs) ys"
  by (induction xs arbitrary: i) auto

lemma filterFrom_all: "(\<And>x j. i \<le> j \<Longrightarrow> p x j) \<Longrightarrow> filterFrom p i xs = xs"
  by (induction xs arbitrary: i) auto

lemma filterFrom_cong:
  "(\<And>x j. i \<le> j \<Longrightarrow> j < i + length xs \<Longrightarrow> p x j = q x j) \<Longrightarrow> filterFrom p i xs = filterFrom q i xs"
proof (induction xs arbitrary: i)
  case Nil
  then show ?case by simp
next
  case (Cons a xs)
  have "filterFrom p (Suc i) xs = filterFrom q (Suc i) xs"
    by (rule Cons.IH) (use Cons.prems in auto)
  moreover have "p a i = q a i" using Cons.prems[of i a] by simp
  ultimately show ?case by simp
qed

lemma div_step_nat:
  "0 < k \<Longrightarrow> (i + k) div k = (i + k - 1) div k + (if i mod k = 0 then 1 else 0)" for i k :: nat
proof (cases i)
  case 0
  assume "0 < k"
  then show ?thesis using 0 by simp
next
  case (Suc j)
  assume k: "0 < k"
  have m: "Suc (j + k) mod k = Suc j mod k"
    using mod_add_self2[of "Suc j" k] by simp
  have "Suc (j + k) div k = (j + k) div k + (if Suc j mod k = 0 then 1 else 0)"
    using m by (simp add: div_Suc)
  then show ?thesis using Suc by simp
qed

lemma length_filterFrom_mod:
  "0 < k \<Longrightarrow> length (filterFrom (\<lambda>_ j. j mod k = 0) i xs) + (i + k - 1) div k = (i + length xs + k - 1) div k"
proof (induction xs arbitrary: i)
  case Nil
  then show ?case by simp
next
  case (Cons a xs)
  let ?L = "length (filterFrom (\<lambda>_ j. j mod k = 0) (Suc i) xs)"
  have ih: "?L + (i + k) div k = (i + length xs + k) div k"
    using Cons.IH[OF Cons.prems, of "Suc i"] by simp
  have st: "(i + k) div k = (i + k - 1) div k + (if i mod k = 0 then 1 else 0)"
    using div_step_nat[OF Cons.prems] .
  have "length (filterFrom (\<lambda>_ j. j mod k = 0) i (a # xs)) = ?L + (if i mod k = 0 then 1 else 0)"
    by simp
  moreover have "(i + length (a # xs) + k - 1) div k = (i + length xs + k) div k"
    by simp
  ultimately show ?case using ih st
    by (cases "i mod k = 0"; simp only: if_True if_False; linarith)
qed

text \<open>Sampling every \<open>k\<close>-th point but keeping the last \<open>t\<close> points whole.\<close>

lemma sample_keep_tail:
  assumes "t \<le> length xs"
  shows "Array_filter (\<lambda>_ j. j mod k = 0 \<or> int j \<ge> int (length xs) - int t) xs
       = filterFrom (\<lambda>_ j. j mod k = 0) 0 (take (length xs - t) xs) @ drop (length xs - t) xs"
proof -
  let ?m = "length xs - t"
  let ?p = "\<lambda>(_::'a) j. j mod k = 0 \<or> int j \<ge> int (length xs) - int t"
  have "filterFrom ?p 0 (take ?m xs @ drop ?m xs)
      = filterFrom ?p 0 (take ?m xs) @ filterFrom ?p (0 + length (take ?m xs)) (drop ?m xs)"
    by (rule filterFrom_append)
  moreover have "filterFrom ?p 0 (take ?m xs) = filterFrom (\<lambda>_ j. j mod k = 0) 0 (take ?m xs)"
    by (rule filterFrom_cong) (use assms in auto)
  moreover have "filterFrom ?p (0 + length (take ?m xs)) (drop ?m xs) = drop ?m xs"
    by (rule filterFrom_all) (use assms in auto)
  ultimately show ?thesis by (simp add: Array_filter_def)
qed

lemma length_sample_keep_tail:
  assumes "t \<le> length xs" "0 < k"
  shows "length (Array_filter (\<lambda>_ j. j mod k = 0 \<or> int j \<ge> int (length xs) - int t) xs)
       = (length xs - t + k - 1) div k + t"
  using assms length_filterFrom_mod[of k 0 "take (length xs - t) xs"]
  by (simp add: sample_keep_tail)

lemma length_optimizedData_3M:
  "180 < length dat \<Longrightarrow> length (optimizedData ''3M'' dat) = (length dat - 89) div 2 + 90"
  using length_sample_keep_tail[of 90 dat 2] by (simp add: optimizedData_def)

lemma length_optimizedData_1Y:
  "365 < length dat \<Longrightarrow> length (optimizedData ''1Y'' dat) = (length dat - 359) div 7 + 365"
  using length_sample_keep_tail[of 365 dat 7] by (simp add: optimizedData_def)


subsection \<open>The branches of the count-based reducer\<close>

lemma optimizedData_1W: "7 < length dat \<Longrightarrow> optimizedData ''1W'' dat = drop (length dat - 7) dat"
  using slice_neg[of 7 dat] by (simp add: optimizedData_def)

lemma optimizedData_1M: "60 < length dat \<Longrightarrow> optimizedData ''1M'' dat = drop (length dat - 30) dat"
  using slice_neg[of 30 dat] by (simp add: optimizedData_def)

lemma optimizedData_small:
  "length dat \<le> 7 \<or> (timeWindow \<noteq> ''1W'' \<and> length dat \<le> 60)
     \<or> (timeWindow \<noteq> ''1W'' \<and> timeWindow \<noteq> ''1M'' \<and> length dat \<le> 180)
     \<or> (timeWindow \<noteq> ''1W'' \<and> timeWindow \<noteq> ''1M'' \<and> timeWindow \<noteq> ''3M'' \<and> length dat \<le> 365)
     \<or> (timeWindow \<noteq> ''1W'' \<and> timeWindow \<noteq> ''1M'' \<and> timeWindow \<noteq> ''3M'' \<and> timeWindow \<noteq> ''1Y'')
   \<Longrightarrow> optimizedData timeWindow dat = dat"
  by (auto simp add: optimizedData_def)

lemma optimizedData_1Y_366:
  assumes "length dat = 366"
  shows "optimizedData ''1Y'' dat = dat"
proof -
  have "filterFrom (\<lambda>_ j. j mod 7 = 0 \<or> int j \<ge> int (length dat) - 365) 0 dat
      = filterFrom (\<lambda>_ j. True) 0 dat"
    by (rule filterFrom_cong) (use assms in auto)
  also have "\<dots> = dat" by (rule filterFrom_all) simp
  finally show ?thesis using assms by (simp add: optimizedData_def Array_filter_def)
qed

lemma optimizedData_idem:
  assumes "timeWindow = ''3M'' \<longrightarrow> length dat \<le> 270"
    and "timeWindow = ''1Y'' \<longrightarrow> length dat \<le> 372"
  shows "optimizedData timeWindow (optimizedData timeWindow dat) = optimizedData timeWindow dat"
proof -
  consider (w) "timeWindow = ''1W''" | (m) "timeWindow = ''1M''" | (q) "timeWindow = ''3M''"
    | (y) "timeWindow = ''1Y''"
    | (o) "timeWindow \<noteq> ''1W'' \<and> timeWindow \<noteq> ''1M'' \<and> timeWindow \<noteq> ''3M'' \<and> timeWindow \<noteq> ''1Y''"
    by blast
  then show ?thesis
  proof cases
    case w
    show ?thesis
    proof (cases "7 < length dat")
      case True
      then have "length (optimizedData ''1W'' dat) \<le> 7" by (simp add: optimizedData_1W)
      then show ?thesis using w optimizedData_small[of "optimizedData ''1W'' dat" "''1W''"] by simp
    next
      case False
      then show ?thesis using w by (simp add: optimizedData_small)
    qed
  next
    case m
    show ?thesis
    proof (cases "60 < length dat")
      case True
      then have "length (optimizedData ''1M'' dat) \<le> 60" by (simp add: optimizedData_1M)
      then show ?thesis using m optimizedData_small[of "optimizedData ''1M'' dat" "''1M''"] by simp
    next
      case False
      then show ?thesis using m by (simp add: optimizedData_small)
    qed
  next
    case q
    show ?thesis
    proof (cases "180 < length dat")
      case True
      then have "length (optimizedData ''3M'' dat) \<le> 180"
        using assms(1) q by (simp add: length_optimizedData_3M)
      then show ?thesis using q optimizedData_small[of "optimizedData ''3M'' dat" "''3M''"] by simp
    next
      case False
      then show ?thesis using q by (simp add: optimizedData_small)
    qed
  next
    case y
    show ?thesis
    proof (cases "365 < length dat")
      case True
      then have "length (optimizedData ''1Y'' dat) = 366"
        using assms(2) y by (simp add: length_optimizedData_1Y)
      then show ?thesis using y optimizedData_1Y_366 by blast
    next
      case False
      then show ?thesis using y by (simp add: optimizedData_small)
    qed
  next
    case o
    then show ?thesis by (simp add: optimizedData_small)
  qed
qed

subsection \<open>The cache\<close>

lemma DataCache_get_empty: "DataCache_get key now Map.empty = (None, Map.empty)"
  by (simp add: DataCache_get_def)

lemma DataCache_get_cases:
  "fst (DataCache_get key now cache) = None \<or>
   (\<exists>entry. cache key = Some entry \<and> DataCache_get key now cache = (Some (data entry), cache))"
  by (cases "cache key") (auto simp add: DataCache_get_def)

lemma optimize_miss:
  assumes "timeWindow \<noteq> ''ALL''" "dat \<noteq> []"
    and "fst (DataCache_get (cacheKey timeWindow (length dat)) t_get cache) = None"
  shows "fst (optimizeDataForTimeWindow dat timeWindow t_get t_set cache) = optimizedData timeWindow dat"
  using assms by (auto simp add: optimizeDataForTimeWindow_def split: prod.splits option.splits)

lemma optimize_empty_cache:
  assumes "timeWindow \<noteq> ''ALL''" "dat \<noteq> []"
  shows "optimizeDataForTimeWindow dat timeWindow t_get t_set Map.empty
       = (optimizedData timeWindow dat,
          [cacheKey timeWindow (length dat) \<mapsto>
             \<lparr>data = optimizedData timeWindow dat, timestamp = t_set, ttl = 1800000\<rparr>])"
  using assms by (simp add: optimizeDataForTimeWindow_def DataCache_get_empty DataCache_set_def)

lemma optimize_result:
  "fst (optimizeDataForTimeWindow dat timeWindow t_get t_set cache) = dat
   \<or> fst (optimizeDataForTimeWindow dat timeWindow t_get t_set cache) = optimizedData timeWindow dat
   \<or> (\<exists>entry. cache (cacheKey timeWindow (length dat)) = Some entry
        \<and> fst (optimizeDataForTimeWindow dat timeWindow t_get t_set cache) = data entry)"
  using DataCache_get_cases[of "cacheKey timeWindow (length dat)" t_get cache]
  by (auto simp add: optimizeDataForTimeWindow_def split: prod.splits option.splits)

lemma optimizeTwice_idem:
  assumes "timeWindow = ''3M'' \<longrightarrow> length dat \<le> 270"
    and "timeWindow = ''1Y'' \<longrightarrow> length dat \<le> 372"
  shows "optimizeTwice dat timeWindow t_get t_set t_get' t_set' Map.empty
       = fst (optimizeDataForTimeWindow dat timeWindow t_get t_set Map.empty)"
proof (cases "timeWindow = ''ALL'' \<or> dat = []")
  case True
  then show ?thesis by (auto simp add: optimizeTwice_def optimizeDataForTimeWindow_def)
next
  case False
  let ?r = "optimizedData timeWindow dat"
  let ?c = "[cacheKey timeWindow (length dat) \<mapsto> \<lparr>data = ?r, timestamp = t_set, ttl = 1800000\<rparr>]"
  have one: "optimizeDataForTimeWindow dat timeWindow t_get t_set Map.empty = (?r, ?c)"
    using False by (simp add: optimize_empty_cache)
  have "fst (optimizeDataForTimeWindow ?r timeWindow t_get' t_set' ?c) = ?r"
    using optimize_result[of ?r timeWindow t_get' t_set' ?c] optimizedData_idem[OF assms]
    by (auto split: if_splits)
  then show ?thesis using one by (simp add: optimizeTwice_def)
qed

lemma cacheKey_3M_271: "cacheKey ''3M'' 181 \<noteq> cacheKey ''3M'' 271"
  by (simp add: cacheKey_def decimal.simps[of 181] decimal.simps[of 271] decimal.simps[of 18]
      decimal.simps[of 27] decimal.simps[of 1] decimal.simps[of 2] digit_def)

lemma optimize_hit_after_miss:
  assumes "length d1 = length d2" "d1 \<noteq> []" "timeWindow \<noteq> ''ALL''" "t_get' - t_set \<le> 1800000"
  shows "fst (optimizeDataForTimeWindow d2 timeWindow t_get' t_set'
               (snd (optimizeDataForTimeWindow d1 timeWindow t_get t_set Map.empty)))
         = optimizedData timeWindow d1"
proof -
  have "d2 \<noteq> []" using assms(1,2) by auto
  then show ?thesis using assms
    by (simp add: optimize_empty_cache) (simp add: optimizeDataForTimeWindow_def DataCache_get_def)
qed


section \<open>Lemmas on the calendar\<close>

lemma div_lower: "0 < k \<Longrightarrow> k * (a div k) \<le> a" for a k :: int
  by (metis mult.commute div_mult_mod_eq le_add_same_cancel1 pos_mod_sign)

lemma div_upper: "0 < k \<Longrightarrow> a < k * (a div k) + k" for a k :: int
  by (metis add_less_cancel_left mult.commute div_mult_mod_eq pos_mod_bound)

lemma YearFromDay_bounds:
  "DayFromYear (YearFromDay d) \<le> d \<and> d < DayFromYear (YearFromDay d + 1)"
proof -
  define q where "q = (d * 400) div 146097"
  have q1: "146097 * q \<le> d * 400" unfolding q_def by (rule div_lower) simp
  have q2: "d * 400 < 146097 * q + 146097" unfolding q_def by (rule div_upper) simp
  have a1: "4 * ((q - 1 + 1970 - 1969) div 4) \<le> q - 1 + 1970 - 1969" by (rule div_lower) simp
  have a2: "q - 1 + 1970 - 1901 < 100 * ((q - 1 + 1970 - 1901) div 100) + 100" by (rule div_upper) simp
  have a3: "400 * ((q - 1 + 1970 - 1601) div 400) \<le> q - 1 + 1970 - 1601" by (rule div_lower) simp
  have lo: "DayFromYear (1970 + q - 1) \<le> d"
    unfolding DayFromYear_def using q1 a1 a2 a3 by (simp add: algebra_simps)
  have b1: "q + 2 + 1970 - 1969 < 4 * ((q + 2 + 1970 - 1969) div 4) + 4" by (rule div_upper) simp
  have b2: "100 * ((q + 2 + 1970 - 1901) div 100) \<le> q + 2 + 1970 - 1901" by (rule div_lower) simp
  have b3: "q + 2 + 1970 - 1601 < 400 * ((q + 2 + 1970 - 1601) div 400) + 400" by (rule div_upper) simp
  have hi: "d < DayFromYear (1970 + q + 2)"
    unfolding DayFromYear_def using q2 b1 b2 b3 by (simp add: algebra_simps)
  show ?thesis
    using lo hi unfolding YearFromDay_def Let_def q_def[symmetric]
    by (auto simp add: algebra_simps)
qed


lemma div_succ_int:
  "0 < k \<Longrightarrow> (a + 1) div k = a div k + (if (a + 1) mod k = 0 then 1 else 0)" for a k :: int
proof -
  assume k: "0 < k"
  have e: "k * (a div k) + a mod k = a" by (rule mult_div_mod_eq)
  have r: "0 \<le> a mod k" "a mod k < k" using k by simp_all
  show ?thesis
  proof (cases "a mod k = k - 1")
    case True
    have "a + 1 = k * (a div k + 1) + 0" using e True by (simp add: algebra_simps)
    then have "(a + 1) div k = a div k + 1" "(a + 1) mod k = 0"
      using k int_div_pos_eq[of "a + 1" k "a div k + 1" 0] int_mod_pos_eq[of "a + 1" k "a div k + 1" 0]
      by simp_all
    then show ?thesis by simp
  next
    case False
    then have lt: "a mod k + 1 < k" using r by simp
    have "a + 1 = k * (a div k) + (a mod k + 1)" using e by simp
    then have "(a + 1) div k = a div k" "(a + 1) mod k = a mod k + 1"
      using lt r int_div_pos_eq[of "a + 1" k "a div k" "a mod k + 1"]
        int_mod_pos_eq[of "a + 1" k "a div k" "a mod k + 1"]
      by simp_all
    then show ?thesis using r by simp
  qed
qed

lemma DayFromYear_Suc: "DayFromYear (y + 1) = DayFromYear y + DaysInYear y"
proof -
  have m4: "(y - 1969 + 1) mod 4 = y mod 4"
    using mod_mult_self2[of y 4 "- 492"] by simp
  have m100: "(y - 1901 + 1) mod 100 = y mod 100"
    using mod_mult_self2[of y 100 "- 19"] by simp
  have m400: "(y - 1601 + 1) mod 400 = y mod 400"
    using mod_mult_self2[of y 400 "- 4"] by simp
  have i4: "y mod 100 = 0 \<Longrightarrow> y mod 4 = 0"
    using mod_mod_cancel[of 4 100 y] by simp
  have i100: "y mod 400 = 0 \<Longrightarrow> y mod 100 = 0"
    using mod_mod_cancel[of 100 400 y] by simp
  have d4: "(y + 1 - 1969) div 4 = (y - 1969) div 4 + (if y mod 4 = 0 then 1 else 0)"
    using div_succ_int[of 4 "y - 1969"] m4 by (simp add: algebra_simps)
  have d100: "(y + 1 - 1901) div 100 = (y - 1901) div 100 + (if y mod 100 = 0 then 1 else 0)"
    using div_succ_int[of 100 "y - 1901"] m100 by (simp add: algebra_simps)
  have d400: "(y + 1 - 1601) div 400 = (y - 1601) div 400 + (if y mod 400 = 0 then 1 else 0)"
    using div_succ_int[of 400 "y - 1601"] m400 by (simp add: algebra_simps)
  show ?thesis
    unfolding DayFromYear_def DaysInYear_def d4 d100 d400 using i4 i100 by auto
qed


lemma DaysInYear_cases: "DaysInYear y = 365 \<or> DaysInYear y = 366"
  by (simp add: DaysInYear_def)

lemma DayFromYear_less_Suc: "DayFromYear y < DayFromYear (y + 1)"
  using DaysInYear_cases[of y] by (auto simp add: DayFromYear_Suc)

lemma DayFromYear_mono: "y \<le> y' \<Longrightarrow> DayFromYear y \<le> DayFromYear y'"
proof (induction y' rule: int_ge_induct)
  case base
  then show ?case by simp
next
  case (step i)
  then show ?case using DayFromYear_less_Suc[of i] by simp
qed

lemma YearFromDay_unique:
  assumes "DayFromYear y \<le> d" "d < DayFromYear (y + 1)"
  shows "YearFromDay d = y"
proof (rule ccontr)
  assume ne: "YearFromDay d \<noteq> y"
  have b: "DayFromYear (YearFromDay d) \<le> d" "d < DayFromYear (YearFromDay d + 1)"
    using YearFromDay_bounds[of d] by simp_all
  show False
  proof (cases "YearFromDay d < y")
    case True
    then have "DayFromYear (YearFromDay d + 1) \<le> DayFromYear y"
      by (intro DayFromYear_mono) simp
    then show False using b(2) assms(1) by simp
  next
    case False
    then have "DayFromYear (y + 1) \<le> DayFromYear (YearFromDay d)"
      using ne by (intro DayFromYear_mono) simp
    then show False using b(1) assms(2) by simp
  qed
qed

lemma DayWithinYear_bounds:
  "0 \<le> DayWithinYear t \<and> DayWithinYear t < DaysInYear (YearFromTime t)"
  using YearFromDay_bounds[of "Day t"]
  by (simp add: DayWithinYear_def YearFromTime_def DayFromYear_Suc)

lemma InLeapYear_cases: "InLeapYear t = 0 \<or> InLeapYear t = 1"
  by (simp add: InLeapYear_def)

lemma MonthFromTime_range: "0 \<le> MonthFromTime t \<and> MonthFromTime t < 12"
  by (simp add: MonthFromTime_def Let_def)

lemma DateFromTime_range: "1 \<le> DateFromTime t \<and> DateFromTime t \<le> 31"
proof -
  have d: "0 \<le> DayWithinYear t" "DayWithinYear t < 365 + InLeapYear t"
    using DayWithinYear_bounds[of t] DaysInYear_cases[of "YearFromTime t"]
    by (auto simp add: InLeapYear_def)
  show ?thesis
    using d InLeapYear_cases[of t]
    unfolding DateFromTime_def MonthFromTime_def DayFromMonth_def Let_def
    by (auto split: if_splits)
qed

lemma MakeDay_civil:
  "MakeDay (YearFromTime t) (MonthFromTime t) (DateFromTime t) = Day t"
proof -
  have "MonthFromTime t div 12 = 0" "MonthFromTime t mod 12 = MonthFromTime t"
    using MonthFromTime_range[of t] by simp_all
  then show ?thesis
    by (simp add: MakeDay_def DateFromTime_def DayWithinYear_def InLeapYear_def)
qed

lemma MakeDate_Day: "MakeDate (Day t) (TimeWithinDay t) = t"
  by (simp add: MakeDate_def Day_def TimeWithinDay_def)

lemma MakeDay_date: "MakeDay y m (dt - k) = MakeDay y m dt - k"
  by (simp add: MakeDay_def Let_def)

lemma MakeDate_shift: "MakeDate (d - k) tm = MakeDate d tm - k * msPerDay"
  by (simp add: MakeDate_def algebra_simps)

lemma TimeWithinDay_range: "0 \<le> TimeWithinDay t \<and> TimeWithinDay t < msPerDay"
  by (simp add: TimeWithinDay_def msPerDay_def)

lemma Day_MakeDate: "0 \<le> tm \<Longrightarrow> tm < msPerDay \<Longrightarrow> Day (MakeDate d tm) = d"
  unfolding Day_def MakeDate_def msPerDay_def
  using int_div_pos_eq[of "d * 86400000 + tm" 86400000 d tm] by (simp add: algebra_simps)

lemma TimeWithinDay_MakeDate:
  "0 \<le> tm \<Longrightarrow> tm < msPerDay \<Longrightarrow> TimeWithinDay (MakeDate d tm) = tm"
  unfolding TimeWithinDay_def MakeDate_def msPerDay_def
  using int_mod_pos_eq[of "d * 86400000 + tm" 86400000 d tm] by (simp add: algebra_simps)


lemma month_cases:
  "0 \<le> m \<Longrightarrow> m < 12 \<Longrightarrow>
   m = 0 \<or> m = 1 \<or> m = 2 \<or> m = 3 \<or> m = 4 \<or> m = 5 \<or> m = 6 \<or> m = 7 \<or> m = 8 \<or> m = 9
     \<or> m = 10 \<or> m = (11::int)"
  by arith

lemma DayFromMonth_within:
  assumes "0 \<le> m" "m < 12" "1 \<le> dt" "dt \<le> DaysInMonth y m"
    and "l = (if DaysInYear y = 366 then 1 else 0)"
  shows "0 \<le> DayFromMonth m l + dt - 1 \<and> DayFromMonth m l + dt - 1 < DaysInYear y"
proof -
  have ly: "DaysInYear y = 365 + l"
    using DaysInYear_cases[of y] assms(5) by auto
  have lc: "l = 0 \<or> l = 1" using assms(5) by simp
  have dy: "(DaysInYear y = 366) = (l = 1)" using ly by simp
  from lc month_cases[OF assms(1,2)] show ?thesis
    using assms(3,4) unfolding ly DaysInMonth_def dy
    by (elim disjE) (simp_all add: DayFromMonth_def)
qed

lemma MonthFromTime_of_day:
  assumes "0 \<le> m" "m < 12" "1 \<le> dt" "dt \<le> DaysInMonth y m"
    and "l = (if DaysInYear y = 366 then 1 else 0)"
    and "DayWithinYear t = DayFromMonth m l + dt - 1" "InLeapYear t = l"
  shows "MonthFromTime t = m"
proof -
  have ly: "DaysInYear y = 365 + l"
    using DaysInYear_cases[of y] assms(5) by auto
  have lc: "l = 0 \<or> l = 1" using assms(5) by simp
  have dy: "(DaysInYear y = 366) = (l = 1)" using ly by simp
  from lc month_cases[OF assms(1,2)] show ?thesis
    using assms(3,4) unfolding MonthFromTime_def assms(6,7) Let_def DaysInMonth_def dy
    by (elim disjE) (simp_all add: DayFromMonth_def)
qed

lemma fields_of_MakeDay:
  assumes m: "0 \<le> m" "m < 12" and dt: "1 \<le> dt" "dt \<le> DaysInMonth y m"
    and tm: "0 \<le> tm" "tm < msPerDay"
  shows "YearFromTime (MakeDate (MakeDay y m dt) tm) = y
       \<and> MonthFromTime (MakeDate (MakeDay y m dt) tm) = m
       \<and> DateFromTime (MakeDate (MakeDay y m dt) tm) = dt"
proof -
  define l :: int where "l = (if DaysInYear y = 366 then 1 else 0)"
  define w where "w = DayFromMonth m l + dt - 1"
  let ?t = "MakeDate (MakeDay y m dt) tm"
  have mm: "m div 12 = 0" "m mod 12 = m" using m by simp_all
  have D: "Day ?t = DayFromYear y + w"
    using tm by (simp add: Day_MakeDate MakeDay_def mm l_def w_def)
  have w: "0 \<le> w \<and> w < DaysInYear y"
    unfolding w_def using m dt l_def by (rule DayFromMonth_within)
  have Y: "YearFromTime ?t = y"
    unfolding YearFromTime_def D using w
    by (intro YearFromDay_unique) (simp_all add: DayFromYear_Suc)
  have L: "InLeapYear ?t = l" by (simp add: InLeapYear_def Y l_def)
  have W: "DayWithinYear ?t = DayFromMonth m l + dt - 1" by (simp add: DayWithinYear_def Y D w_def)
  have M: "MonthFromTime ?t = m"
    using m dt l_def W L by (rule MonthFromTime_of_day)
  have "DateFromTime ?t = dt"
    by (simp add: DateFromTime_def W L M)
  then show ?thesis using Y M by simp
qed

lemma MakeDay_carry: "MakeDay y m dt = MakeDay (y + m div 12) (m mod 12) dt"
  by (simp add: MakeDay_def)


section \<open>Lemmas on the date-cutoff reducer\<close>

subsection \<open>The cutoff\<close>

text \<open>
  In a zone with a fixed offset: setting the day of the month moves the time
  value by whole days, and setting the year or the month leaves the day of the
  month and the time of day alone when the month arrived at has that day.
\<close>

lemma setDate_shift:
  assumes "\<And>t u. LocalTZA rt t u = z"
  shows "setDate rt t dt = TimeClip (t + (dt - getDate rt t) * msPerDay)"
proof -
  let ?lt = "LocalTime rt t"
  define D where "D = DateFromTime ?lt"
  define n where "n = MakeDate (MakeDay (YearFromTime ?lt) (MonthFromTime ?lt) dt) (TimeWithinDay ?lt)"
  have "MakeDay (YearFromTime ?lt) (MonthFromTime ?lt) (DateFromTime ?lt - (DateFromTime ?lt - dt))
      = Day ?lt - (DateFromTime ?lt - dt)"
    by (simp only: MakeDay_date MakeDay_civil)
  then have "n = ?lt - (D - dt) * msPerDay"
    by (simp add: n_def D_def MakeDate_shift MakeDate_Day)
  then have "n - z = t + (dt - D) * msPerDay"
    by (simp add: LocalTime_def assms algebra_simps)
  moreover have "setDate rt t dt = TimeClip (n - z)"
    by (simp add: setDate_def Let_def UTC_def n_def assms)
  ultimately show ?thesis by (simp add: getDate_def D_def)
qed

lemma fields_after_set:
  assumes z: "\<And>t u. LocalTZA rt t u = z"
    and c: "TimeClip (UTC rt (MakeDate (MakeDay y m (getDate rt t)) (TimeWithinDay (LocalTime rt t)))) = Some c"
    and d: "getDate rt t \<le> DaysInMonth (y + m div 12) (m mod 12)"
  shows "getFullYear rt c = y + m div 12 \<and> getMonth rt c = m mod 12 \<and> getDate rt c = getDate rt t
       \<and> TimeWithinDay (LocalTime rt c) = TimeWithinDay (LocalTime rt t)"
proof -
  let ?lt = "LocalTime rt t"
  let ?n = "MakeDate (MakeDay (y + m div 12) (m mod 12) (DateFromTime ?lt)) (TimeWithinDay ?lt)"
  have "TimeClip (UTC rt ?n) = Some c"
    using c MakeDay_carry[of y m "DateFromTime ?lt"] by (simp add: getDate_def)
  then have "TimeClip (?n - z) = Some c" by (simp add: UTC_def z)
  then have "c = ?n - z" by (simp add: TimeClip_def split: if_splits)
  then have lc: "LocalTime rt c = ?n" by (simp add: LocalTime_def z)
  have f: "YearFromTime ?n = y + m div 12 \<and> MonthFromTime ?n = m mod 12
      \<and> DateFromTime ?n = DateFromTime ?lt"
    using d DateFromTime_range[of ?lt] TimeWithinDay_range[of ?lt]
    by (intro fields_of_MakeDay) (simp_all add: getDate_def)
  have "TimeWithinDay ?n = TimeWithinDay ?lt"
    using TimeWithinDay_range[of ?lt] by (simp add: TimeWithinDay_MakeDate)
  then show ?thesis
    using f by (simp add: getFullYear_def getMonth_def getDate_def lc)
qed

lemma setFullYear_fields:
  assumes "\<And>t u. LocalTZA rt t u = z" "setFullYear rt t y = Some c"
    and "getDate rt t \<le> DaysInMonth y (getMonth rt t)"
  shows "getFullYear rt c = y \<and> getMonth rt c = getMonth rt t \<and> getDate rt c = getDate rt t
       \<and> TimeWithinDay (LocalTime rt c) = TimeWithinDay (LocalTime rt t)"
proof -
  have m: "getMonth rt t div 12 = 0" "getMonth rt t mod 12 = getMonth rt t"
    using MonthFromTime_range[of "LocalTime rt t"] by (simp_all add: getMonth_def)
  have "getFullYear rt c = y + getMonth rt t div 12 \<and> getMonth rt c = getMonth rt t mod 12
      \<and> getDate rt c = getDate rt t
      \<and> TimeWithinDay (LocalTime rt c) = TimeWithinDay (LocalTime rt t)"
    using assms(1)
  proof (rule fields_after_set)
    show "TimeClip (UTC rt (MakeDate (MakeDay y (getMonth rt t) (getDate rt t))
        (TimeWithinDay (LocalTime rt t)))) = Some c"
      using assms(2) by (simp add: setFullYear_def Let_def getMonth_def getDate_def)
    show "getDate rt t \<le> DaysInMonth (y + getMonth rt t div 12) (getMonth rt t mod 12)"
      using assms(3) by (simp add: m)
  qed
  then show ?thesis by (simp add: m)
qed

lemma setMonth_fields:
  assumes "\<And>t u. LocalTZA rt t u = z" "setMonth rt t m = Some c"
    and "getDate rt t \<le> DaysInMonth (getFullYear rt t + m div 12) (m mod 12)"
  shows "getFullYear rt c = getFullYear rt t + m div 12 \<and> getMonth rt c = m mod 12
       \<and> getDate rt c = getDate rt t
       \<and> TimeWithinDay (LocalTime rt c) = TimeWithinDay (LocalTime rt t)"
  using assms(1)
proof (rule fields_after_set)
  show "TimeClip (UTC rt (MakeDate (MakeDay (getFullYear rt t) m (getDate rt t))
      (TimeWithinDay (LocalTime rt t)))) = Some c"
    using assms(2) by (simp add: setMonth_def Let_def getFullYear_def getDate_def)
  show "getDate rt t \<le> DaysInMonth (getFullYear rt t + m div 12) (m mod 12)"
    using assms(3) .
qed

subsection \<open>The points kept\<close>

lemma dateGe_Some: "dateGe a b \<longleftrightarrow> (\<exists>t c. a = Some t \<and> b = Some c \<and> c \<le> t)"
  by (cases a; cases b) auto

lemma latestDate_upper:
  assumes "item \<in> set dat" "Date_parse rt (date item) = Some t"
  shows "t \<le> latestDate rt dat"
proof -
  have "t \<in> set (validDates rt dat)"
    using assms by (auto simp add: validDates_def List.map_filter_def image_iff intro!: bexI[of _ item])
  then show ?thesis unfolding latestDate_def by (intro Max_ge) simp_all
qed

lemma filterDataByTimeWindow_idem:
  "filterDataByTimeWindow rt now cutoff0 (filterDataByTimeWindow rt now cutoff0 dat timeWindow) timeWindow
     = filterDataByTimeWindow rt now cutoff0 dat timeWindow"
  by (simp add: filterDataByTimeWindow_def)

lemma subseq_filterDataByTimeWindow:
  "subseq (filterDataByTimeWindow rt now cutoff0 dat timeWindow) dat"
  by (simp add: filterDataByTimeWindow_def)

subsection \<open>Date strings\<close>

lemma digitValue_digit: "k < 10 \<Longrightarrow> digitValue (digit k) = Some (int k)"
  by (simp add: digitValue_def digit_def Let_def)

lemma digit_of_int: "0 \<le> x \<Longrightarrow> x < 10 \<Longrightarrow> digitValue (digit (nat x)) = Some x"
  using digitValue_digit[of "nat x"] by simp

lemma digitsValue_pad2:
  assumes "0 \<le> v" "v \<le> 99"
  shows "digitsValue 0 (pad2 v) = Some v"
proof -
  have A: "digitValue (digit (nat (v div 10 mod 10))) = Some (v div 10 mod 10)"
    by (rule digit_of_int) simp_all
  have B: "digitValue (digit (nat (v mod 10))) = Some (v mod 10)"
    by (rule digit_of_int) simp_all
  have a: "v div 10 mod 10 = v div 10" using assms by simp
  have "digitsValue 0 (pad2 v) = Some (10 * (10 * 0 + v div 10 mod 10) + v mod 10)"
    unfolding pad2_def by (simp only: digitsValue.simps A B option.case)
  also have "10 * (10 * 0 + v div 10 mod 10) + v mod 10 = v"
    unfolding a by simp
  finally show ?thesis .
qed

lemma horner4:
  "a = p \<Longrightarrow> 10 * p + b = q \<Longrightarrow> 10 * q + c = r \<Longrightarrow> 10 * r + d = v
   \<Longrightarrow> 10 * (10 * (10 * (10 * 0 + a) + b) + c) + d = v" for a b c d p q r v :: int
  by simp

lemma digitsValue_pad4:
  assumes "0 \<le> v" "v \<le> 9999"
  shows "digitsValue 0 (pad4 v) = Some v"
proof -
  have A: "digitValue (digit (nat (v div 1000 mod 10))) = Some (v div 1000 mod 10)"
    by (rule digit_of_int) simp_all
  have B: "digitValue (digit (nat (v div 100 mod 10))) = Some (v div 100 mod 10)"
    by (rule digit_of_int) simp_all
  have C: "digitValue (digit (nat (v div 10 mod 10))) = Some (v div 10 mod 10)"
    by (rule digit_of_int) simp_all
  have D: "digitValue (digit (nat (v mod 10))) = Some (v mod 10)"
    by (rule digit_of_int) simp_all
  have a: "v div 1000 mod 10 = v div 1000" using assms by simp
  have b1: "v div 1000 = v div 100 div 10"
    using zdiv_zmult2_eq[of 10 v 100] by simp
  have c1: "v div 100 = v div 10 div 10"
    using zdiv_zmult2_eq[of 10 v 10] by simp
  have b: "10 * (v div 1000) + v div 100 mod 10 = v div 100"
    unfolding b1 by (rule mult_div_mod_eq)
  have c: "10 * (v div 100) + v div 10 mod 10 = v div 10"
    unfolding c1 by (rule mult_div_mod_eq)
  have d: "10 * (v div 10) + v mod 10 = v" by (rule mult_div_mod_eq)
  have "digitsValue 0 (pad4 v)
      = Some (10 * (10 * (10 * (10 * 0 + v div 1000 mod 10) + v div 100 mod 10) + v div 10 mod 10) + v mod 10)"
    unfolding pad4_def by (simp only: digitsValue.simps A B C D option.case)
  also have "10 * (10 * (10 * (10 * 0 + v div 1000 mod 10) + v div 100 mod 10) + v div 10 mod 10) + v mod 10 = v"
    by (rule horner4[OF a b c d])
  finally show ?thesis .
qed


lemma Day_of_day: "Day (d * msPerDay) = d"
  by (simp add: Day_def msPerDay_def)

lemma parseIsoDate_isoDate:
  assumes "0 \<le> YearFromDay d" "YearFromDay d \<le> 9999"
  shows "parseIsoDate (isoDate d) = TimeClip (d * msPerDay)"
proof -
  let ?t = "d * msPerDay"
  have y: "0 \<le> YearFromTime ?t" "YearFromTime ?t \<le> 9999"
    using assms by (simp_all add: YearFromTime_def Day_of_day)
  have m: "0 \<le> MonthFromTime ?t + 1" "MonthFromTime ?t + 1 \<le> 99"
    "1 \<le> MonthFromTime ?t + 1" "MonthFromTime ?t + 1 \<le> 12"
    using MonthFromTime_range[of ?t] by simp_all
  have dt: "0 \<le> DateFromTime ?t" "DateFromTime ?t \<le> 99" "1 \<le> DateFromTime ?t" "DateFromTime ?t \<le> 31"
    using DateFromTime_range[of ?t] by simp_all
  obtain y1 y2 y3 y4 where py: "pad4 (YearFromTime ?t) = [y1, y2, y3, y4]"
    by (simp add: pad4_def)
  obtain m1 m2 where pm: "pad2 (MonthFromTime ?t + 1) = [m1, m2]"
    by (simp add: pad2_def)
  obtain d1 d2 where pd: "pad2 (DateFromTime ?t) = [d1, d2]"
    by (simp add: pad2_def)
  have vy: "digitsValue 0 [y1, y2, y3, y4] = Some (YearFromTime ?t)"
    using digitsValue_pad4[OF y] unfolding py .
  have vm: "digitsValue 0 [m1, m2] = Some (MonthFromTime ?t + 1)"
    using digitsValue_pad2[OF m(1,2)] unfolding pm .
  have vd: "digitsValue 0 [d1, d2] = Some (DateFromTime ?t)"
    using digitsValue_pad2[OF dt(1,2)] unfolding pd .
  have "isoDate d = [y1, y2, y3, y4, CHR ''-'', m1, m2, CHR ''-'', d1, d2]"
    by (simp add: isoDate_def Let_def py pm pd)
  then have "parseIsoDate (isoDate d)
      = TimeClip (MakeDate (MakeDay (YearFromTime ?t) (MonthFromTime ?t) (DateFromTime ?t)) 0)"
    using m(3,4) dt(3,4) by (simp add: parseIsoDate_def vy vm vd del: digitsValue.simps)
  also have "\<dots> = TimeClip ?t"
    by (simp add: MakeDay_civil Day_of_day MakeDate_def)
  finally show ?thesis .
qed

lemma YearFromDay_range:
  assumes "0 \<le> d" "d \<le> 2000000"
  shows "0 \<le> YearFromDay d \<and> YearFromDay d \<le> 9999"
proof -
  define q where "q = (d * 400) div 146097"
  have q1: "146097 * q \<le> d * 400" unfolding q_def by (rule div_lower) simp
  have q2: "d * 400 < 146097 * q + 146097" unfolding q_def by (rule div_upper) simp
  have "0 \<le> q \<and> q \<le> 5476" using q1 q2 assms by simp
  then show ?thesis unfolding YearFromDay_def Let_def q_def[symmetric] by simp
qed

subsection \<open>The worked example\<close>

lemma filter_upt_ge: "k \<le> n \<Longrightarrow> filter (\<lambda>i. k \<le> i) [0..<n] = [k..<n]"
proof -
  assume "k \<le> n"
  then have "[0..<n] = [0..<k] @ [k..<n]"
    using upt_add_eq_append[of 0 k "n - k"] by simp
  moreover have "filter (\<lambda>i. k \<le> i) [0..<k] = []" by simp
  moreover have "filter (\<lambda>i. k \<le> i) [k..<n] = [k..<n]" by simp
  ultimately show ?thesis by simp
qed

text \<open>Every date of the series parses to the midnight (UTC) of its day.\<close>

lemma parse_dailySeries:
  assumes "0 \<le> lastDay - int n + 1" "lastDay \<le> 2000000" "i < n"
  shows "Date_parse utcRuntime (isoDate (lastDay - int n + 1 + int i))
       = Some ((lastDay - int n + 1 + int i) * msPerDay)"
proof -
  let ?d = "lastDay - int n + 1 + int i"
  have r: "0 \<le> ?d" "?d \<le> 2000000" using assms by simp_all
  have "parseIsoDate (isoDate ?d) = TimeClip (?d * msPerDay)"
    using YearFromDay_range[OF r] by (intro parseIsoDate_isoDate) simp_all
  moreover have "TimeClip (?d * msPerDay) = Some (?d * msPerDay)"
    using r by (simp add: TimeClip_def msPerDay_def)
  ultimately show ?thesis by (simp add: utcRuntime_def)
qed

text \<open>
  A daily series cut at a time value: the points kept are those from the first
  day whose midnight is not before the cutoff.
\<close>

lemma filter_dailySeries:
  assumes "0 \<le> lastDay - int n + 1" "lastDay \<le> 2000000" "k \<le> n"
    and "\<And>i. i < n \<Longrightarrow> (c \<le> (lastDay - int n + 1 + int i) * msPerDay) = (k \<le> i)"
  shows "filter (\<lambda>item. dateGe (Date_parse utcRuntime (date item)) (Some c)) (dailySeries lastDay n)
       = drop k (dailySeries lastDay n)"
proof -
  let ?f = "\<lambda>i. \<lparr>date = isoDate (lastDay - int n + 1 + int i)\<rparr>"
  have "filter (\<lambda>item. dateGe (Date_parse utcRuntime (date item)) (Some c)) (map ?f [0..<n])
      = map ?f (filter (\<lambda>i. dateGe (Date_parse utcRuntime (isoDate (lastDay - int n + 1 + int i))) (Some c)) [0..<n])"
    by (simp add: filter_map o_def)
  also have "filter (\<lambda>i. dateGe (Date_parse utcRuntime (isoDate (lastDay - int n + 1 + int i))) (Some c)) [0..<n]
      = filter (\<lambda>i. k \<le> i) [0..<n]"
    by (rule filter_cong) (simp_all add: parse_dailySeries[OF assms(1,2)] assms(4))
  also have "\<dots> = [k..<n]" using assms(3) by (rule filter_upt_ge)
  also have "map ?f [k..<n] = drop k (map ?f [0..<n])"
    by (simp add: drop_map)
  finally show ?thesis by (simp add: dailySeries_def)
qed

lemma cutoff_1Y_on_2025_09_02:
  assumes "Day now = 20333"
  shows "cutoffDate utcRuntime now now W_1Y = Some (now - 365 * msPerDay)"
proof -
  have y: "YearFromTime now = 2025"
    unfolding YearFromTime_def assms by (simp add: YearFromDay_def DayFromYear_def)
  have l: "InLeapYear now = 0" by (simp add: InLeapYear_def y DaysInYear_def)
  have w: "DayWithinYear now = 244"
    by (simp add: DayWithinYear_def y assms DayFromYear_def)
  have m: "MonthFromTime now = 8" by (simp add: MonthFromTime_def w l)
  have d: "DateFromTime now = 2" by (simp add: DateFromTime_def w l m DayFromMonth_def)
  have md: "MakeDay 2024 8 2 = 19968"
    by (simp add: MakeDay_def DayFromYear_def DaysInYear_def DayFromMonth_def)
  have t: "now = 20333 * msPerDay + TimeWithinDay now"
    using MakeDate_Day[of now] assms by (simp add: MakeDate_def)
  have r: "0 \<le> TimeWithinDay now" "TimeWithinDay now < msPerDay"
    using TimeWithinDay_range[of now] by simp_all
  have "cutoffDate utcRuntime now now W_1Y = TimeClip (MakeDate 19968 (TimeWithinDay now))"
    by (simp add: cutoffDate_def setFullYear_def getFullYear_def LocalTime_def UTC_def utcRuntime_def
        y m d md)
  also have "MakeDate 19968 (TimeWithinDay now) = now - 365 * msPerDay"
    using t by (simp add: MakeDate_def)
  also have "TimeClip (now - 365 * msPerDay) = Some (now - 365 * msPerDay)"
    using t r by (simp add: TimeClip_def msPerDay_def)
  finally show ?thesis .
qed

lemma isoDate_values:
  "isoDate 19933 = ''2024-07-29''" "isoDate 19968 = ''2024-09-02''"
  "isoDate 19969 = ''2024-09-03''" "isoDate 20332 = ''2025-09-01''"
  by code_simp+

lemma dailySeries_dates:
  "length (dailySeries 20332 400) = 400"
  "date (dailySeries 20332 400 ! 0) = ''2024-07-29''"
  "date (dailySeries 20332 400 ! 35) = ''2024-09-02''"
  "date (dailySeries 20332 400 ! 36) = ''2024-09-03''"
  "date (dailySeries 20332 400 ! 399) = ''2025-09-01''"
  by (simp_all add: dailySeries_def isoDate_values)

lemma example_retained:
  assumes "Day now = 20333"
  shows "filterDataByTimeWindow utcRuntime now now (dailySeries 20332 400) W_1Y
       = drop (if TimeWithinDay now = 0 then 35 else 36) (dailySeries 20332 400)"
proof -
  define k :: nat where "k = (if TimeWithinDay now = 0 then 35 else 36)"
  define tm where "tm = TimeWithinDay now"
  have c: "cutoffDate utcRuntime now now W_1Y = Some (now - 365 * msPerDay)"
    using assms by (rule cutoff_1Y_on_2025_09_02)
  have t: "now = 20333 * msPerDay + tm"
    using MakeDate_Day[of now] assms by (simp add: MakeDate_def tm_def)
  have r: "0 \<le> tm" "tm < 86400000"
    using TimeWithinDay_range[of now] by (simp_all add: tm_def msPerDay_def)
  have ne: "dailySeries 20332 400 \<noteq> []" by (simp add: dailySeries_def)
  have k: "(now - 365 * msPerDay \<le> (19933 + int i) * msPerDay) = (k \<le> i)" for i
  proof (cases "tm = 0")
    case True
    then have "k = 35" by (simp add: k_def tm_def)
    then show ?thesis using True unfolding t msPerDay_def by auto
  next
    case False
    then have "k = 36" by (simp add: k_def tm_def)
    then show ?thesis using False r unfolding t msPerDay_def by auto
  qed
  have "k \<le> 400" by (simp add: k_def)
  then have "filter (\<lambda>item. dateGe (Date_parse utcRuntime (date item)) (Some (now - 365 * msPerDay)))
          (dailySeries 20332 400) = drop k (dailySeries 20332 400)"
    by (intro filter_dailySeries) (simp_all add: k)
  then show ?thesis using ne by (simp add: filterDataByTimeWindow_def c k_def)
qed

lemma parseIsoDate_values:
  "parseIsoDate ''2025-08-20'' = Some 1755648000000"
  "parseIsoDate ''2025-08-30'' = Some 1756512000000"
  "parseIsoDate ''soon'' = None"
  by code_simp+

lemma cutoffDate_values:
  "cutoffDate utcRuntime 1756814400000 1756814400001 W_1Y = Some 1725278400001"
  "cutoffDate utcRuntime 1756814400000 1756814400001 W_6M = Some 1740916800001"
  "cutoffDate utcRuntime 1756771200001 1756771200001 W_1W = Some 1756166400001"
  "cutoffDate utcRuntime 1743379200000 1743379200000 W_1M = Some 1740960000000"
  "cutoffDate utcRuntime 1767225599999 1767225600000 W_1W = Some 1769212800000"
  by code_simp+

lemma getter_values:
  "getFullYear utcRuntime 1756814400000 = 2025" "getFullYear utcRuntime 1756814400001 = 2025"
  "getMonth utcRuntime 1756814400000 = 8" "getMonth utcRuntime 1756814400001 = 8"
  "getDate utcRuntime 1756814400000 = 2" "getDate utcRuntime 1756814400001 = 2"
  "getMonth utcRuntime 1743379200000 = 2" "getDate utcRuntime 1743379200000 = 31"
  "getMonth utcRuntime 1740960000000 = 2" "getDate utcRuntime 1740960000000 = 3"
  "getDate utcRuntime 1767225599999 = 31" "getDate utcRuntime 1767225600000 = 1"
  by code_simp+

lemma parseIsoDate_more_values:
  "parseIsoDate ''2025-08-25'' = Some 1756080000000"
  "parseIsoDate ''2025-08-26'' = Some 1756166400000"
  "parseIsoDate ''2025-08-27'' = Some 1756252800000"
  "parseIsoDate ''2025-12-25'' = Some 1766620800000"
  "parseIsoDate ''2025-12-31'' = Some 1767139200000"
  by code_simp+

text \<open>
  When the two clock readings fall on either side of midnight, the day of the
  month of the first is written into the month of the second: read one
  millisecond before and at the start of 1 January 2026, the cutoff of 1W is
  24 January 2026, and the points of the last days of December are dropped.
\<close>

lemma cutoffDate_readings_apart:
  "getDate utcRuntime 1767225599999 = 31 \<and> getDate utcRuntime 1767225600000 = 1
   \<and> cutoffDate utcRuntime 1767225599999 1767225600000 W_1W = Some 1769212800000
   \<and> filterDataByTimeWindow utcRuntime 1767225599999 1767225600000
        [\<lparr>date = ''2025-12-25''\<rparr>, \<lparr>date = ''2025-12-31''\<rparr>] W_1W = []"
proof -
  have p: "Date_parse utcRuntime = parseIsoDate" by (simp add: utcRuntime_def)
  show ?thesis
    by (simp add: filterDataByTimeWindow_def cutoffDate_values getter_values p
        parseIsoDate_more_values)
qed


section \<open>Lemmas on the memo key and on reducing twice\<close>

text \<open>The decimal rendering of a length can be read back, so the key determines the length.\<close>

lemma digitsValue_snoc:
  "digitsValue acc (cs @ [c]) =
     (case digitsValue acc cs of None \<Rightarrow> None
      | Some v \<Rightarrow> (case digitValue c of None \<Rightarrow> None | Some d \<Rightarrow> Some (10 * v + d)))"
  by (induction cs arbitrary: acc) (auto split: option.splits)

lemma digitsValue_decimal: "digitsValue 0 (decimal n) = Some (int n)"
proof (induction n rule: decimal.induct)
  case (1 n)
  show ?case
  proof (cases "n < 10")
    case True
    then show ?thesis by (subst decimal.simps) (simp add: digitValue_digit)
  next
    case False
    then have ih: "digitsValue 0 (decimal (n div 10)) = Some (int (n div 10))"
      using "1.IH" by simp
    have d: "digitValue (digit (n mod 10)) = Some (int (n mod 10))"
      by (rule digitValue_digit) simp
    have "decimal n = decimal (n div 10) @ [digit (n mod 10)]"
      using False by (subst decimal.simps) simp
    then have "digitsValue 0 (decimal n) = Some (10 * int (n div 10) + int (n mod 10))"
      by (simp add: digitsValue_snoc ih d del: digitsValue.simps)
    also have "10 * int (n div 10) + int (n mod 10) = int n"
      by (simp add: zdiv_int zmod_int)
    finally show ?thesis .
  qed
qed

lemma decimal_inject:
  assumes "decimal n = decimal m"
  shows "n = m"
proof -
  have "digitsValue 0 (decimal n) = digitsValue 0 (decimal m)" by (simp only: assms)
  then have "Some (int n) = Some (int m)" by (simp only: digitsValue_decimal)
  then show ?thesis by simp
qed

lemma cacheKey_inject: "cacheKey w n = cacheKey w m \<Longrightarrow> n = m"
  by (rule decimal_inject) (simp add: cacheKey_def)

text \<open>
  From an empty cache, an output of another length than the input misses the
  cache on the second call and is reduced again.
\<close>

lemma optimizeTwice_recompute:
  assumes "w \<noteq> ''ALL''" "xs \<noteq> []" "length (optimizedData w xs) \<noteq> length xs"
  shows "optimizeTwice xs w t_get t_set t_get' t_set' Map.empty = optimizedData w (optimizedData w xs)"
proof -
  let ?r = "optimizedData w xs"
  let ?c = "[cacheKey w (length xs) \<mapsto> \<lparr>data = ?r, timestamp = t_set, ttl = 1800000\<rparr>]"
  have one: "optimizeDataForTimeWindow xs w t_get t_set Map.empty = (?r, ?c)"
    using assms by (simp add: optimize_empty_cache)
  have k: "cacheKey w (length ?r) \<noteq> cacheKey w (length xs)"
    using assms(3) cacheKey_inject by blast
  have "fst (optimizeDataForTimeWindow ?r w t_get' t_set' ?c) = optimizedData w ?r"
  proof (cases "?r = []")
    case True
    then show ?thesis by (simp add: optimizeDataForTimeWindow_def optimizedData_small)
  next
    case False
    have "fst (DataCache_get (cacheKey w (length ?r)) t_get' ?c) = None"
      using k by (simp add: DataCache_get_def)
    then show ?thesis using assms(1) False by (intro optimize_miss) simp_all
  qed
  then show ?thesis using one by (simp add: optimizeTwice_def)
qed

lemma optimizeTwice_3M_changes:
  assumes "270 < length xs"
  shows "length (optimizeTwice xs ''3M'' t_get t_set t_get' t_set' Map.empty)
       < length (fst (optimizeDataForTimeWindow xs ''3M'' t_get t_set Map.empty))"
proof -
  let ?r = "optimizedData ''3M'' xs"
  have ne: "xs \<noteq> []" using assms by auto
  have l1: "length ?r = (length xs - 89) div 2 + 90"
    using assms by (simp add: length_optimizedData_3M)
  then have big: "180 < length ?r" and lt: "length ?r \<noteq> length xs" using assms by simp_all
  have l2: "length (optimizedData ''3M'' ?r) = (length ?r - 89) div 2 + 90"
    using big by (rule length_optimizedData_3M)
  have "optimizeTwice xs ''3M'' t_get t_set t_get' t_set' Map.empty = optimizedData ''3M'' ?r"
    using ne lt by (intro optimizeTwice_recompute) simp_all
  moreover have "fst (optimizeDataForTimeWindow xs ''3M'' t_get t_set Map.empty) = ?r"
    using ne by (simp add: optimize_empty_cache)
  ultimately show ?thesis using l2 big by simp
qed

lemma optimizeTwice_1Y_changes:
  assumes "372 < length xs"
  shows "length (optimizeTwice xs ''1Y'' t_get t_set t_get' t_set' Map.empty)
       < length (fst (optimizeDataForTimeWindow xs ''1Y'' t_get t_set Map.empty))"
proof -
  let ?r = "optimizedData ''1Y'' xs"
  have ne: "xs \<noteq> []" using assms by auto
  have l1: "length ?r = (length xs - 359) div 7 + 365"
    using assms by (simp add: length_optimizedData_1Y)
  then have big: "366 < length ?r" and lt: "length ?r \<noteq> length xs" using assms by simp_all
  have l2: "length (optimizedData ''1Y'' ?r) = (length ?r - 359) div 7 + 365"
    using big by (intro length_optimizedData_1Y) simp
  have "optimizeTwice xs ''1Y'' t_get t_set t_get' t_set' Map.empty = optimizedData ''1Y'' ?r"
    using ne lt by (intro optimizeTwice_recompute) simp_all
  moreover have "fst (optimizeDataForTimeWindow xs ''1Y'' t_get t_set Map.empty) = ?r"
    using ne by (simp add: optimize_empty_cache)
  ultimately show ?thesis using l2 big by simp
qed

lemma optimizeTwice_idem_iff:
  "optimizeTwice xs w t_get t_set t_get' t_set' Map.empty
     = fst (optimizeDataForTimeWindow xs w t_get t_set Map.empty)
   \<longleftrightarrow> \<not> (w = ''3M'' \<and> 270 < length xs) \<and> \<not> (w = ''1Y'' \<and> 372 < length xs)"
proof
  assume e: "optimizeTwice xs w t_get t_set t_get' t_set' Map.empty
     = fst (optimizeDataForTimeWindow xs w t_get t_set Map.empty)"
  show "\<not> (w = ''3M'' \<and> 270 < length xs) \<and> \<not> (w = ''1Y'' \<and> 372 < length xs)"
    using e optimizeTwice_3M_changes[of xs t_get t_set t_get' t_set']
      optimizeTwice_1Y_changes[of xs t_get t_set t_get' t_set']
    by auto
next
  assume "\<not> (w = ''3M'' \<and> 270 < length xs) \<and> \<not> (w = ''1Y'' \<and> 372 < length xs)"
  then show "optimizeTwice xs w t_get t_set t_get' t_set' Map.empty
     = fst (optimizeDataForTimeWindow xs w t_get t_set Map.empty)"
    by (intro optimizeTwice_idem) auto
qed


section \<open>The claims\<close>

text \<open>
  Claim C1, amended. For a window other than ALL and a non-empty series, with
  \<open>now\<close> and \<open>cutoff0\<close> the two clock readings of the function:
  \<^item> the result is the list of the points whose date parses to a time value at
    or after the cutoff, a time value itself; a point of the input is kept
    exactly when that holds, and the date of a point kept is at most the latest
    date of the input;
  \<^item> in a zone with a fixed offset, when both readings have the same day of the
    month, the cutoff of 1W is the second reading less 7 times 24 hours;
  \<^item> in such a zone, when both readings have the same year (3Y, 1Y) or the same
    month (6M, 3M, 1M), the cutoff has the year and the month arrived at by
    lowering the year or the month by the window's offset, and the day of the
    month and the time of day of the second reading, provided the month arrived
    at has that day.
\<close>

theorem filterDataByTimeWindow_cutoff:
  assumes "timeWindow \<noteq> W_ALL" "dat \<noteq> []"
  shows "filterDataByTimeWindow rt now cutoff0 dat timeWindow
           = filter (\<lambda>item. dateGe (Date_parse rt (date item)) (cutoffDate rt now cutoff0 timeWindow)) dat
       \<and> (\<forall>item \<in> set dat.
            item \<in> set (filterDataByTimeWindow rt now cutoff0 dat timeWindow)
            \<longleftrightarrow> (\<exists>t c. Date_parse rt (date item) = Some t
                  \<and> cutoffDate rt now cutoff0 timeWindow = Some c \<and> c \<le> t))
       \<and> (\<forall>item \<in> set (filterDataByTimeWindow rt now cutoff0 dat timeWindow).
            \<exists>t. Date_parse rt (date item) = Some t \<and> t \<le> latestDate rt dat)
       \<and> ((\<forall>t u. LocalTZA rt t u = z) \<and> windowOffset timeWindow = (0, 0, days)
            \<and> getDate rt now = getDate rt cutoff0
            \<longrightarrow> cutoffDate rt now cutoff0 timeWindow = TimeClip (cutoff0 - days * msPerDay))
       \<and> ((\<forall>t u. LocalTZA rt t u = z) \<and> windowOffset timeWindow = (years, 0, 0)
            \<and> getFullYear rt now = getFullYear rt cutoff0
            \<and> cutoffDate rt now cutoff0 timeWindow = Some cy
            \<and> getDate rt cutoff0 \<le> DaysInMonth (getFullYear rt cutoff0 - years) (getMonth rt cutoff0)
            \<longrightarrow> getFullYear rt cy = getFullYear rt cutoff0 - years
              \<and> getMonth rt cy = getMonth rt cutoff0
              \<and> getDate rt cy = getDate rt cutoff0
              \<and> TimeWithinDay (LocalTime rt cy) = TimeWithinDay (LocalTime rt cutoff0))
       \<and> ((\<forall>t u. LocalTZA rt t u = z) \<and> windowOffset timeWindow = (0, months, 0)
            \<and> getMonth rt now = getMonth rt cutoff0
            \<and> cutoffDate rt now cutoff0 timeWindow = Some cm
            \<and> getDate rt cutoff0
                 \<le> DaysInMonth (getFullYear rt cutoff0 + (getMonth rt cutoff0 - months) div 12)
                                ((getMonth rt cutoff0 - months) mod 12)
            \<longrightarrow> getFullYear rt cm = getFullYear rt cutoff0 + (getMonth rt cutoff0 - months) div 12
              \<and> getMonth rt cm = (getMonth rt cutoff0 - months) mod 12
              \<and> getDate rt cm = getDate rt cutoff0
              \<and> TimeWithinDay (LocalTime rt cm) = TimeWithinDay (LocalTime rt cutoff0))"
proof -
  let ?c = "cutoffDate rt now cutoff0 timeWindow"
  let ?r = "filterDataByTimeWindow rt now cutoff0 dat timeWindow"
  have f: "?r = filter (\<lambda>item. dateGe (Date_parse rt (date item)) ?c) dat"
    using assms by (simp add: filterDataByTimeWindow_def)
  have k: "item \<in> set ?r \<longleftrightarrow> (\<exists>t c. Date_parse rt (date item) = Some t \<and> ?c = Some c \<and> c \<le> t)"
    if "item \<in> set dat" for item
    using that unfolding f by (simp add: dateGe_Some)
  have b: "\<exists>t. Date_parse rt (date item) = Some t \<and> t \<le> latestDate rt dat"
    if "item \<in> set ?r" for item
  proof -
    have i: "item \<in> set dat" and g: "dateGe (Date_parse rt (date item)) ?c"
      using that unfolding f by simp_all
    from g obtain t where t: "Date_parse rt (date item) = Some t"
      unfolding dateGe_Some by blast
    then show ?thesis using latestDate_upper[OF i t] by simp
  qed
  have w: "?c = TimeClip (cutoff0 - days * msPerDay)"
    if "\<forall>t u. LocalTZA rt t u = z" "windowOffset timeWindow = (0, 0, days)"
      "getDate rt now = getDate rt cutoff0"
  proof -
    have "timeWindow = W_1W \<and> days = 7"
      using that(2) assms(1) by (cases timeWindow) simp_all
    then show ?thesis
      using setDate_shift[of rt z cutoff0 "getDate rt now - 7"] that(1,3)
      by (simp add: cutoffDate_def)
  qed
  have y: "getFullYear rt cy = getFullYear rt cutoff0 - years
              \<and> getMonth rt cy = getMonth rt cutoff0
              \<and> getDate rt cy = getDate rt cutoff0
              \<and> TimeWithinDay (LocalTime rt cy) = TimeWithinDay (LocalTime rt cutoff0)"
    if "\<forall>t u. LocalTZA rt t u = z" "windowOffset timeWindow = (years, 0, 0)"
      "getFullYear rt now = getFullYear rt cutoff0" "?c = Some cy"
      "getDate rt cutoff0 \<le> DaysInMonth (getFullYear rt cutoff0 - years) (getMonth rt cutoff0)"
  proof -
    have "setFullYear rt cutoff0 (getFullYear rt cutoff0 - years) = Some cy"
      using that(2,3,4) assms(1) by (cases timeWindow) (simp_all add: cutoffDate_def)
    then show ?thesis
      using that(1,5) setFullYear_fields[of rt z cutoff0 "getFullYear rt cutoff0 - years" cy]
      by simp
  qed
  have m: "getFullYear rt cm = getFullYear rt cutoff0 + (getMonth rt cutoff0 - months) div 12
              \<and> getMonth rt cm = (getMonth rt cutoff0 - months) mod 12
              \<and> getDate rt cm = getDate rt cutoff0
              \<and> TimeWithinDay (LocalTime rt cm) = TimeWithinDay (LocalTime rt cutoff0)"
    if "\<forall>t u. LocalTZA rt t u = z" "windowOffset timeWindow = (0, months, 0)"
      "getMonth rt now = getMonth rt cutoff0" "?c = Some cm"
      "getDate rt cutoff0
         \<le> DaysInMonth (getFullYear rt cutoff0 + (getMonth rt cutoff0 - months) div 12)
                        ((getMonth rt cutoff0 - months) mod 12)"
  proof -
    have "setMonth rt cutoff0 (getMonth rt cutoff0 - months) = Some cm"
      using that(2,3,4) assms(1) by (cases timeWindow) (simp_all add: cutoffDate_def)
    then show ?thesis
      using that(1,5) setMonth_fields[of rt z cutoff0 "getMonth rt cutoff0 - months" cm]
      by simp
  qed
  show ?thesis using f k b w y m by blast
qed

theorem filterDataByTimeWindow_cutoff_witness:
  "W_1W \<noteq> W_ALL \<and> W_1Y \<noteq> W_ALL \<and> W_6M \<noteq> W_ALL
   \<and> [\<lparr>date = ''2025-08-20''\<rparr>, \<lparr>date = ''2025-08-26''\<rparr>, \<lparr>date = ''2025-08-30''\<rparr>,
       \<lparr>date = ''soon''\<rparr>] \<noteq> []
   \<and> (\<forall>t u. LocalTZA utcRuntime t u = 0)
   \<and> windowOffset W_1W = (0, 0, 7)
   \<and> getDate utcRuntime 1756814400000 = getDate utcRuntime 1756814400001
   \<and> cutoffDate utcRuntime 1756814400000 1756814400001 W_1W = Some 1756209600001
   \<and> filterDataByTimeWindow utcRuntime 1756814400000 1756814400001
        [\<lparr>date = ''2025-08-20''\<rparr>, \<lparr>date = ''2025-08-26''\<rparr>, \<lparr>date = ''2025-08-30''\<rparr>,
         \<lparr>date = ''soon''\<rparr>] W_1W
       = [\<lparr>date = ''2025-08-30''\<rparr>]
   \<and> latestDate utcRuntime
        [\<lparr>date = ''2025-08-20''\<rparr>, \<lparr>date = ''2025-08-26''\<rparr>, \<lparr>date = ''2025-08-30''\<rparr>,
         \<lparr>date = ''soon''\<rparr>] = 1756512000000
   \<and> windowOffset W_1Y = (1, 0, 0)
   \<and> getFullYear utcRuntime 1756814400000 = getFullYear utcRuntime 1756814400001
   \<and> cutoffDate utcRuntime 1756814400000 1756814400001 W_1Y = Some 1725278400001
   \<and> getDate utcRuntime 1756814400001 \<le> DaysInMonth 2024 8
   \<and> getFullYear utcRuntime 1725278400001 = 2024
   \<and> getMonth utcRuntime 1725278400001 = 8
   \<and> getDate utcRuntime 1725278400001 = 2
   \<and> windowOffset W_6M = (0, 6, 0)
   \<and> getMonth utcRuntime 1756814400000 = getMonth utcRuntime 1756814400001
   \<and> cutoffDate utcRuntime 1756814400000 1756814400001 W_6M = Some 1740916800001
   \<and> getDate utcRuntime 1756814400001 \<le> DaysInMonth 2025 2
   \<and> getFullYear utcRuntime 1740916800001 = 2025
   \<and> getMonth utcRuntime 1740916800001 = 2
   \<and> getDate utcRuntime 1740916800001 = 2"
proof -
  let ?dat = "[\<lparr>date = ''2025-08-20''\<rparr>, \<lparr>date = ''2025-08-26''\<rparr>, \<lparr>date = ''2025-08-30''\<rparr>,
               \<lparr>date = ''soon''\<rparr>]"
  have z: "\<forall>t u. LocalTZA utcRuntime t u = 0" by (simp add: utcRuntime_def)
  have p: "Date_parse utcRuntime = parseIsoDate" by (simp add: utcRuntime_def)
  have m: "DaysInMonth 2024 8 = 30" "DaysInMonth 2025 2 = 31" by (simp_all add: DaysInMonth_def)
  have w: "TimeClip (1756814400001 - 7 * msPerDay) = Some 1756209600001"
    by (simp add: TimeClip_def msPerDay_def)
  have one: "cutoffDate utcRuntime 1756814400000 1756814400001 W_1W = Some 1756209600001"
    using filterDataByTimeWindow_cutoff[where timeWindow = W_1W and dat = ?dat and rt = utcRuntime
        and now = 1756814400000 and ?cutoff0.0 = 1756814400001 and z = 0 and days = 7
        and years = 0 and months = 0 and cy = 0 and cm = 0]
    by (simp add: z w getter_values)
  show ?thesis
    using filterDataByTimeWindow_cutoff[where timeWindow = W_1W and dat = ?dat and rt = utcRuntime
        and now = 1756814400000 and ?cutoff0.0 = 1756814400001 and z = 0 and days = 7
        and years = 0 and months = 0 and cy = 0 and cm = 0]
      filterDataByTimeWindow_cutoff[where timeWindow = W_1Y and dat = ?dat and rt = utcRuntime
        and now = 1756814400000 and ?cutoff0.0 = 1756814400001 and z = 0 and days = 0
        and years = 1 and months = 0 and cy = 1725278400001 and cm = 0]
      filterDataByTimeWindow_cutoff[where timeWindow = W_6M and dat = ?dat and rt = utcRuntime
        and now = 1756814400000 and ?cutoff0.0 = 1756814400001 and z = 0 and days = 0
        and years = 0 and months = 6 and cy = 0 and cm = 1740916800001]
    by (simp add: z p m one getter_values cutoffDate_values parseIsoDate_values
        parseIsoDate_more_values latestDate_def validDates_def)
qed


text \<open>
  Where C1 as stated fails. One millisecond after the start of 2 September 2025
  the cutoff of 1W lies on 26 August, the date seven days earlier, yet the point
  dated 2025-08-26 is dropped: its date is midnight and the cutoff carries the
  time of day. And on 31 March 2025 the cutoff of 1M is 3 March, in the month of
  \<open>now\<close> itself: February has no day 31, and the day carries over.
\<close>

theorem filterDataByTimeWindow_time_of_day_counterexample:
  "cutoffDate utcRuntime 1756771200001 1756771200001 W_1W = Some 1756166400001
   \<and> Day 1756166400001 = 20326
   \<and> Date_parse utcRuntime ''2025-08-26'' = Some (20326 * msPerDay)
   \<and> filterDataByTimeWindow utcRuntime 1756771200001 1756771200001
        [\<lparr>date = ''2025-08-25''\<rparr>, \<lparr>date = ''2025-08-26''\<rparr>, \<lparr>date = ''2025-08-27''\<rparr>] W_1W
       = [\<lparr>date = ''2025-08-27''\<rparr>]
   \<and> getMonth utcRuntime 1743379200000 = 2 \<and> getDate utcRuntime 1743379200000 = 31
   \<and> cutoffDate utcRuntime 1743379200000 1743379200000 W_1M = Some 1740960000000
   \<and> getMonth utcRuntime 1740960000000 = 2 \<and> getDate utcRuntime 1740960000000 = 3"
proof -
  have p: "Date_parse utcRuntime = parseIsoDate" by (simp add: utcRuntime_def)
  show ?thesis
    by (simp add: filterDataByTimeWindow_def cutoffDate_values getter_values p
        parseIsoDate_more_values Day_def msPerDay_def)
qed


text \<open>
  Claim C2, as the code has it. An entry that is present is returned unchanged
  while the elapsed time \<open>now - timestamp\<close> is at most its \<open>ttl\<close>; once the
  elapsed time exceeds the \<open>ttl\<close>, \<open>get\<close> returns \<open>None\<close> and deletes the entry.
  The same holds for an entry just written by \<open>set\<close>, whose \<open>ttl\<close> is the
  given number of minutes in milliseconds.
\<close>

theorem DataCache_get_expiry:
  "(cache key = Some entry \<and> now - timestamp entry \<le> ttl entry
      \<longrightarrow> DataCache_get key now cache = (Some (data entry), cache))
   \<and> (cache key = Some entry \<and> now - timestamp entry > ttl entry
      \<longrightarrow> DataCache_get key now cache = (None, cache(key := None)))
   \<and> (now' - t \<le> ttlMinutes * 60 * 1000
      \<longrightarrow> DataCache_get key now' (DataCache_set key v ttlMinutes t cache)
          = (Some v, DataCache_set key v ttlMinutes t cache))
   \<and> (now' - t > ttlMinutes * 60 * 1000
      \<longrightarrow> DataCache_get key now' (DataCache_set key v ttlMinutes t cache)
          = (None, (DataCache_set key v ttlMinutes t cache)(key := None)))"
  by (simp add: DataCache_get_def DataCache_set_def)

theorem DataCache_get_expiry_witness:
  "[''k'' \<mapsto> \<lparr>data = 5::nat, timestamp = 0, ttl = 60000\<rparr>] ''k''
     = Some \<lparr>data = 5, timestamp = 0, ttl = 60000\<rparr>
   \<and> (60000::int) - 0 \<le> 60000
   \<and> DataCache_get ''k'' 60000 [''k'' \<mapsto> \<lparr>data = 5::nat, timestamp = 0, ttl = 60000\<rparr>]
       = (Some 5, [''k'' \<mapsto> \<lparr>data = 5::nat, timestamp = 0, ttl = 60000\<rparr>])
   \<and> (60001::int) - 0 > 60000
   \<and> DataCache_get ''k'' 60001 [''k'' \<mapsto> \<lparr>data = 5::nat, timestamp = 0, ttl = 60000\<rparr>]
       = (None, [''k'' \<mapsto> \<lparr>data = 5::nat, timestamp = 0, ttl = 60000\<rparr>](''k'' := None))
   \<and> (60000::int) - 0 \<le> 1 * 60 * 1000
   \<and> DataCache_get ''k'' 60000 (DataCache_set ''k'' (5::nat) 1 0 Map.empty)
       = (Some 5, DataCache_set ''k'' 5 1 0 Map.empty)
   \<and> (60001::int) - 0 > 1 * 60 * 1000
   \<and> DataCache_get ''k'' 60001 (DataCache_set ''k'' (5::nat) 1 0 Map.empty)
       = (None, (DataCache_set ''k'' 5 1 0 Map.empty)(''k'' := None))"
  using DataCache_get_expiry[where cache = "[''k'' \<mapsto> \<lparr>data = 5::nat, timestamp = 0, ttl = 60000\<rparr>]"
      and key = "''k''" and entry = "\<lparr>data = 5::nat, timestamp = 0, ttl = 60000\<rparr>"
      and now = 60000 and now' = 60000 and t = 0 and ttlMinutes = 1 and v = "5::nat"]
    DataCache_get_expiry[where cache = "[''k'' \<mapsto> \<lparr>data = 5::nat, timestamp = 0, ttl = 60000\<rparr>]"
      and key = "''k''" and entry = "\<lparr>data = 5::nat, timestamp = 0, ttl = 60000\<rparr>"
      and now = 60001 and now' = 60001 and t = 0 and ttlMinutes = 1 and v = "5::nat"]
  by (simp add: DataCache_set_def)

text \<open>
  The boundary at which C2 as stated fails: an entry written at time 0 with a
  time-to-live of one minute has \<open>ttl = 60000\<close>; at time 60000 the elapsed time
  equals the \<open>ttl\<close>, yet \<open>get\<close> still returns the value and keeps the entry.
\<close>

theorem DataCache_get_at_ttl_counterexample:
  "ttl (the (DataCache_set ''k'' (5::nat) 1 0 Map.empty ''k'')) = 60000
   \<and> timestamp (the (DataCache_set ''k'' (5::nat) 1 0 Map.empty ''k'')) = 0
   \<and> fst (DataCache_get ''k'' 60000 (DataCache_set ''k'' (5::nat) 1 0 Map.empty)) = Some 5
   \<and> snd (DataCache_get ''k'' 60000 (DataCache_set ''k'' (5::nat) 1 0 Map.empty)) ''k'' \<noteq> None"
  by (simp add: DataCache_get_def DataCache_set_def)


text \<open>
  Claim C3: under the window ALL both reducers return their input as it is, and
  an empty input is returned as it is under every window; the count-based
  reducer does not touch the cache in either case.
\<close>

theorem reducers_identity:
  "filterDataByTimeWindow rt now cutoff0 dat W_ALL = dat
   \<and> filterDataByTimeWindow rt now cutoff0 [] timeWindow = []
   \<and> optimizeDataForTimeWindow xs ''ALL'' t_get t_set cache = (xs, cache)
   \<and> optimizeDataForTimeWindow [] w t_get t_set cache = ([], cache)"
  by (simp add: filterDataByTimeWindow_def optimizeDataForTimeWindow_def)


text \<open>
  Claim C4: started from an empty cache, the count-based reducer returns the
  last 7 points, in their order, of an input of more than 7 points under ``1W'',
  and the last 30 points of an input of more than 60 points under ``1M''.
\<close>

theorem optimize_last_points:
  "(7 < length dat \<longrightarrow>
      fst (optimizeDataForTimeWindow dat ''1W'' t_get t_set Map.empty) = drop (length dat - 7) dat
      \<and> length (fst (optimizeDataForTimeWindow dat ''1W'' t_get t_set Map.empty)) = 7)
   \<and> (60 < length dat \<longrightarrow>
      fst (optimizeDataForTimeWindow dat ''1M'' t_get t_set Map.empty) = drop (length dat - 30) dat
      \<and> length (fst (optimizeDataForTimeWindow dat ''1M'' t_get t_set Map.empty)) = 30)"
proof -
  have w: "fst (optimizeDataForTimeWindow dat ''1W'' t_get t_set Map.empty) = drop (length dat - 7) dat"
    if "7 < length dat"
  proof -
    have "dat \<noteq> []" using that by auto
    then show ?thesis using that by (simp add: optimize_empty_cache optimizedData_1W)
  qed
  have m: "fst (optimizeDataForTimeWindow dat ''1M'' t_get t_set Map.empty) = drop (length dat - 30) dat"
    if "60 < length dat"
  proof -
    have "dat \<noteq> []" using that by auto
    then show ?thesis using that by (simp add: optimize_empty_cache optimizedData_1M)
  qed
  show ?thesis using w m by auto
qed

theorem optimize_last_points_witness:
  "7 < length [1, 2, 3, 4, 5, 6, 7, 8, 9 :: nat]
   \<and> fst (optimizeDataForTimeWindow [1, 2, 3, 4, 5, 6, 7, 8, 9 :: nat] ''1W'' 0 0 Map.empty)
       = [3, 4, 5, 6, 7, 8, 9]
   \<and> 60 < length [0..<61]
   \<and> fst (optimizeDataForTimeWindow [0..<61] ''1M'' 0 0 Map.empty) = [31..<61]"
  using optimize_last_points[of "[1, 2, 3, 4, 5, 6, 7, 8, 9 :: nat]" 0 0]
    optimize_last_points[of "[0..<61]" 0 0]
  by simp


text \<open>
  Claim C5, amended. With the clock readings held fixed, the date-cutoff
  reducer applied to its own output returns that output. The count-based
  reducer, started from an empty cache and applied to its own output, returns
  that output exactly when the input is not one of more than 270 points under
  ``3M'' nor one of more than 372 points under ``1Y''.
\<close>

theorem reducers_idempotent:
  "filterDataByTimeWindow rt now cutoff0 (filterDataByTimeWindow rt now cutoff0 dat timeWindow) timeWindow
     = filterDataByTimeWindow rt now cutoff0 dat timeWindow
   \<and> (optimizeTwice xs w t_get t_set t_get' t_set' Map.empty
          = fst (optimizeDataForTimeWindow xs w t_get t_set Map.empty)
        \<longleftrightarrow> \<not> (w = ''3M'' \<and> 270 < length xs) \<and> \<not> (w = ''1Y'' \<and> 372 < length xs))"
  using optimizeTwice_idem_iff[of xs w t_get t_set t_get' t_set']
  by (simp add: filterDataByTimeWindow_idem)

theorem reducers_idempotent_witness:
  "length [0..<200] \<le> 270
   \<and> optimizeTwice [0..<200] ''3M'' 0 0 1 1 Map.empty
       = fst (optimizeDataForTimeWindow [0..<200] ''3M'' 0 0 Map.empty)
   \<and> length (fst (optimizeDataForTimeWindow [0..<200] ''3M'' 0 0 Map.empty)) = 145
   \<and> optimizeTwice [11, 12, 13, 14, 15, 16, 17, 18, 19 :: nat] ''1W'' 0 0 1 1 Map.empty = [13, 14, 15, 16, 17, 18, 19]"
proof -
  have a: "fst (optimizeDataForTimeWindow [0..<200] ''3M'' 0 0 Map.empty) = optimizedData ''3M'' [0..<200]"
    by (simp add: optimize_empty_cache)
  have b: "length (optimizedData ''3M'' [0..<200]) = 145"
    using length_optimizedData_3M[of "[0..<200]"] by simp
  have c: "fst (optimizeDataForTimeWindow [11, 12, 13, 14, 15, 16, 17, 18, 19 :: nat] ''1W'' 0 0 Map.empty)
      = [13, 14, 15, 16, 17, 18, 19]"
    by (simp add: optimize_empty_cache optimizedData_1W)
  show ?thesis
    using reducers_idempotent[where w = "''3M''" and xs = "[0..<200]" and t_get = 0 and t_set = 0
        and t_get' = 1 and t_set' = 1 and rt = utcRuntime and now = 0 and ?cutoff0.0 = 0
        and timeWindow = W_ALL and dat = "[] :: TimeSeriesPoint list"]
      reducers_idempotent[where w = "''1W''" and xs = "[11, 12, 13, 14, 15, 16, 17, 18, 19 :: nat]"
        and t_get = 0 and t_set = 0 and t_get' = 1 and t_set' = 1 and rt = utcRuntime and now = 0
        and ?cutoff0.0 = 0 and timeWindow = W_ALL and dat = "[] :: TimeSeriesPoint list"]
    by (simp add: a b c)
qed

text \<open>
  Where C5 as stated fails: under ``3M'' an input of 271 points is reduced to
  181 points, and reducing those again leaves 136.
\<close>

theorem optimizeTwice_counterexample:
  "length (fst (optimizeDataForTimeWindow [0..<271] ''3M'' 0 0 Map.empty)) = 181
   \<and> length (optimizeTwice [0..<271] ''3M'' 0 0 0 0 Map.empty) = 136
   \<and> optimizeTwice [0..<271] ''3M'' 0 0 0 0 Map.empty
       \<noteq> fst (optimizeDataForTimeWindow [0..<271] ''3M'' 0 0 Map.empty)"
proof -
  let ?r = "optimizedData ''3M'' [0..<271]"
  have one: "optimizeDataForTimeWindow [0..<271] ''3M'' 0 0 Map.empty
      = (?r, [cacheKey ''3M'' 271 \<mapsto> \<lparr>data = ?r, timestamp = 0, ttl = 1800000\<rparr>])"
    using optimize_empty_cache[of "''3M''" "[0..<271]" 0 0] by simp
  have len: "length ?r = 181"
    using length_optimizedData_3M[of "[0..<271]"] by simp
  then have ne: "?r \<noteq> []" by auto
  have "fst (DataCache_get (cacheKey ''3M'' (length ?r)) 0
          [cacheKey ''3M'' 271 \<mapsto> \<lparr>data = ?r, timestamp = 0, ttl = 1800000\<rparr>]) = None"
    using cacheKey_3M_271 by (simp add: len DataCache_get_def)
  then have "fst (optimizeDataForTimeWindow ?r ''3M'' 0 0
          [cacheKey ''3M'' 271 \<mapsto> \<lparr>data = ?r, timestamp = 0, ttl = 1800000\<rparr>]) = optimizedData ''3M'' ?r"
    using ne by (intro optimize_miss) auto
  moreover have "length (optimizedData ''3M'' ?r) = 136"
    using length_optimizedData_3M[of ?r] len by simp
  ultimately have "length (fst (optimizeDataForTimeWindow [0..<271] ''3M'' 0 0 Map.empty)) = 181
      \<and> length (optimizeTwice [0..<271] ''3M'' 0 0 0 0 Map.empty) = 136"
    using one len by (simp add: optimizeTwice_def)
  then show ?thesis by auto
qed


text \<open>
  Claim C6, amended. The series has 400 consecutive daily points, the last one
  dated 2025-09-01 and the one at index 35 dated 2024-09-02; the host is in UTC
  and \<open>now\<close> is any instant of 2 September 2025 (day number 20333). At midnight
  exactly the window 1Y keeps the points from 2024-09-02 on, the last 365; at
  every later instant of that day the cutoff carries the time of day, the point
  of 2024-09-02 (midnight) lies before it, and the last 364 points are kept.
\<close>

theorem filterDataByTimeWindow_example:
  assumes "Day now = 20333"
  shows "length (dailySeries 20332 400) = 400
       \<and> date (dailySeries 20332 400 ! 399) = ''2025-09-01''
       \<and> date (dailySeries 20332 400 ! 35) = ''2024-09-02''
       \<and> filterDataByTimeWindow utcRuntime now now (dailySeries 20332 400) W_1Y
           = (if TimeWithinDay now = 0 then drop 35 (dailySeries 20332 400)
              else drop 36 (dailySeries 20332 400))"
  using example_retained[OF assms] by (simp add: dailySeries_dates)

theorem filterDataByTimeWindow_example_witness:
  "Day 1756771200000 = 20333 \<and> TimeWithinDay 1756771200000 = 0
   \<and> filterDataByTimeWindow utcRuntime 1756771200000 1756771200000 (dailySeries 20332 400) W_1Y
       = drop 35 (dailySeries 20332 400)
   \<and> length (filterDataByTimeWindow utcRuntime 1756771200000 1756771200000 (dailySeries 20332 400) W_1Y)
       = 365"
proof -
  have d: "Day 1756771200000 = 20333" by (simp add: Day_def msPerDay_def)
  have t: "TimeWithinDay 1756771200000 = 0" by (simp add: TimeWithinDay_def msPerDay_def)
  show ?thesis
    using filterDataByTimeWindow_example[OF d] d t by simp
qed

text \<open>
  Where C6 as stated fails: at noon of 2 September 2025 the function keeps 364
  points, the first of them dated 2024-09-03.
\<close>

theorem filterDataByTimeWindow_noon_counterexample:
  "Day 1756814400000 = 20333
   \<and> filterDataByTimeWindow utcRuntime 1756814400000 1756814400000 (dailySeries 20332 400) W_1Y
       = drop 36 (dailySeries 20332 400)
   \<and> length (filterDataByTimeWindow utcRuntime 1756814400000 1756814400000 (dailySeries 20332 400) W_1Y)
       = 364
   \<and> date (hd (filterDataByTimeWindow utcRuntime 1756814400000 1756814400000 (dailySeries 20332 400) W_1Y))
       = ''2024-09-03''"
proof -
  have d: "Day 1756814400000 = 20333" by (simp add: Day_def msPerDay_def)
  have t: "TimeWithinDay 1756814400000 \<noteq> 0" by (simp add: TimeWithinDay_def msPerDay_def)
  show ?thesis
    using example_retained[OF d] d t dailySeries_dates by (simp add: hd_drop_conv_nth)
qed


text \<open>
  Claim C7, amended. The output of the date-cutoff reducer is a subsequence of
  its input, for every window. So is the output of the count-based reducer, for
  every window label and every branch, whenever the cache has no live entry
  under the key of the window and the input length.
\<close>

theorem reducers_subseq:
  "subseq (filterDataByTimeWindow rt now cutoff0 dat timeWindow) dat
   \<and> (fst (DataCache_get (cacheKey w (length xs)) t_get cache) = None \<longrightarrow>
        subseq (fst (optimizeDataForTimeWindow xs w t_get t_set cache)) xs)"
proof -
  have "subseq (fst (optimizeDataForTimeWindow xs w t_get t_set cache)) xs"
    if "fst (DataCache_get (cacheKey w (length xs)) t_get cache) = None"
  proof (cases "w = ''ALL'' \<or> xs = []")
    case True
    then show ?thesis by (auto simp add: optimizeDataForTimeWindow_def)
  next
    case False
    then show ?thesis using that optimize_miss[of w xs t_get cache t_set]
      by (simp add: subseq_optimizedData)
  qed
  then show ?thesis by (simp add: subseq_filterDataByTimeWindow)
qed

theorem reducers_subseq_witness:
  "fst (DataCache_get (cacheKey ''1W'' (length [11, 12, 13, 14, 15, 16, 17, 18, 19 :: nat])) 0
         (Map.empty :: nat list DataCache)) = None
   \<and> fst (optimizeDataForTimeWindow [11, 12, 13, 14, 15, 16, 17, 18, 19 :: nat] ''1W'' 0 0 Map.empty)
       = [13, 14, 15, 16, 17, 18, 19]
   \<and> subseq [13, 14, 15, 16, 17, 18, 19] [11, 12, 13, 14, 15, 16, 17, 18, 19 :: nat]"
proof -
  have c: "fst (optimizeDataForTimeWindow [11, 12, 13, 14, 15, 16, 17, 18, 19 :: nat] ''1W'' 0 0 Map.empty)
      = [13, 14, 15, 16, 17, 18, 19]"
    by (simp add: optimize_empty_cache optimizedData_1W)
  show ?thesis
    using reducers_subseq[where w = "''1W''" and xs = "[11, 12, 13, 14, 15, 16, 17, 18, 19 :: nat]"
        and t_get = 0 and t_set = 0 and cache = Map.empty and rt = utcRuntime and now = 0
        and ?cutoff0.0 = 0 and timeWindow = W_ALL and dat = "[] :: TimeSeriesPoint list"]
    by (simp add: c DataCache_get_empty)
qed

text \<open>
  Where C7 as stated fails: after a call on \<open>[1, 2]\<close> under ``1W'', a call on
  \<open>[3, 4]\<close> under ``1W'' returns \<open>[1, 2]\<close>, which is no subsequence of \<open>[3, 4]\<close>.
\<close>

theorem optimize_not_subseq_counterexample:
  "fst (optimizeDataForTimeWindow [3, 4 :: nat] ''1W'' 1 1
         (snd (optimizeDataForTimeWindow [1, 2] ''1W'' 0 0 Map.empty))) = [1, 2]
   \<and> \<not> subseq [1, 2 :: nat] [3, 4]"
  using optimize_hit_after_miss[of "[1, 2 :: nat]" "[3, 4]" "''1W''" 1 0 1 0]
  by (simp add: optimizedData_small)


text \<open>
  Claim C8: \<open>has\<close> answers true exactly when \<open>get\<close> at the same moment returns
  a value, and both leave the same cache behind (so \<open>has\<close> deletes an expired
  entry exactly when \<open>get\<close> does).
\<close>

theorem DataCache_has_same_check:
  "DataCache_has key now cache =
     (fst (DataCache_get key now cache) \<noteq> None, snd (DataCache_get key now cache))"
  by (simp add: DataCache_has_def DataCache_get_def split: option.splits)


text \<open>
  Claim C9: the memo key is built from the window and the length only. After a
  first call on \<open>d1\<close> from an empty cache, a call on any \<open>d2\<close> of the same length
  under the same window, made no later than 30 minutes after the entry was
  written, returns the reduction of \<open>d1\<close>, as the first call did. The witness
  has two distinct arrays, for the second of which a fresh cache gives another
  result: the function is not a function of its arguments alone.
\<close>

theorem optimize_memo_by_length:
  assumes "length d1 = length d2" "d1 \<noteq> []" "timeWindow \<noteq> ''ALL''" "t_get' - t_set \<le> 1800000"
  shows "fst (optimizeDataForTimeWindow d1 timeWindow t_get t_set Map.empty) = optimizedData timeWindow d1
       \<and> fst (optimizeDataForTimeWindow d2 timeWindow t_get' t_set'
               (snd (optimizeDataForTimeWindow d1 timeWindow t_get t_set Map.empty)))
         = optimizedData timeWindow d1"
  using assms optimize_hit_after_miss[OF assms] by (simp add: optimize_empty_cache)

theorem optimize_memo_by_length_witness:
  "length [1, 2 :: nat] = length [3, 4 :: nat] \<and> [1, 2 :: nat] \<noteq> [3, 4] \<and> ''1W'' \<noteq> ''ALL''
   \<and> (1000::int) - 0 \<le> 1800000
   \<and> fst (optimizeDataForTimeWindow [1, 2 :: nat] ''1W'' 0 0 Map.empty) = [1, 2]
   \<and> fst (optimizeDataForTimeWindow [3, 4 :: nat] ''1W'' 1000 1000
           (snd (optimizeDataForTimeWindow [1, 2] ''1W'' 0 0 Map.empty))) = [1, 2]
   \<and> fst (optimizeDataForTimeWindow [3, 4 :: nat] ''1W'' 1000 1000 Map.empty) = [3, 4]"
  using optimize_memo_by_length[of "[1, 2 :: nat]" "[3, 4]" "''1W''" 1000 0 0 1000]
    optimize_empty_cache[of "''1W''" "[3, 4 :: nat]" 1000 1000]
  by (simp add: optimizedData_small)


text \<open>
  Claim C10, amended: under ``3Y'' and ``6M'', under ``3M'' with at most 180
  points and under ``1Y'' with at most 365 points, the count-based reducer
  returns its input unchanged whenever the cache has no live entry under the
  key of this window and length (as from an empty cache); when it has one, the
  array of that entry is returned instead.
\<close>

theorem optimize_unchanged_on_miss:
  assumes "timeWindow = ''3Y'' \<or> timeWindow = ''6M''
           \<or> (timeWindow = ''3M'' \<and> length dat \<le> 180) \<or> (timeWindow = ''1Y'' \<and> length dat \<le> 365)"
  shows "fst (optimizeDataForTimeWindow dat timeWindow t_get t_set cache)
       = (if dat = [] then dat
          else case fst (DataCache_get (cacheKey timeWindow (length dat)) t_get cache) of
                 None \<Rightarrow> dat
               | Some cached \<Rightarrow> cached)"
proof (cases "dat = []")
  case True
  then show ?thesis by (simp add: optimizeDataForTimeWindow_def)
next
  case False
  have w: "timeWindow \<noteq> ''ALL''" using assms by auto
  have "optimizedData timeWindow dat = dat"
    using assms by (auto simp add: optimizedData_def)
  then show ?thesis
    using False w by (simp add: optimizeDataForTimeWindow_def split: prod.splits option.splits)
qed

theorem optimize_unchanged_on_miss_witness:
  "fst (optimizeDataForTimeWindow [0..<500] ''3Y'' 0 0 Map.empty) = [0..<500]
   \<and> length [0..<180] \<le> 180
   \<and> fst (optimizeDataForTimeWindow [0..<180] ''3M'' 0 0 Map.empty) = [0..<180]
   \<and> fst (optimizeDataForTimeWindow [5, 6 :: nat] ''6M'' 7 7
           [cacheKey ''6M'' (length [5, 6 :: nat]) \<mapsto> \<lparr>data = [8, 9], timestamp = 3, ttl = 1800000\<rparr>]) = [8, 9]"
  using optimize_unchanged_on_miss[of "''3Y''" "[0..<500]" 0 0 Map.empty]
    optimize_unchanged_on_miss[of "''3M''" "[0..<180]" 0 0 Map.empty]
    optimize_unchanged_on_miss[of "''6M''" "[5, 6 :: nat]" 7 7
      "[cacheKey ''6M'' (length [5, 6 :: nat]) \<mapsto> \<lparr>data = [8, 9], timestamp = 3, ttl = 1800000\<rparr>]"]
  by (simp add: DataCache_get_def)

text \<open>
  Where C10 as stated fails: after a call on \<open>[1]\<close> under ``3Y'', a call on \<open>[2]\<close>
  under ``3Y'' one millisecond later returns \<open>[1]\<close>, not its input.
\<close>

theorem optimize_stale_counterexample:
  "fst (optimizeDataForTimeWindow [2 :: nat] ''3Y'' 1 1
         (snd (optimizeDataForTimeWindow [1] ''3Y'' 0 0 Map.empty))) = [1]"
  using optimize_hit_after_miss[of "[1 :: nat]" "[2]" "''3Y''" 1 0 1 0]
  by (simp add: optimizedData_small)

end
